theory Spec2Isabelle
  imports Complex_Main "HOL-Library.Multiset"
begin

section \<open>Python values\<close>

text \<open>
  The exceptions that the solver (\<^verbatim>\<open>core/solver.py\<close>) and the library calls it makes
  can raise. A function that may raise returns \<open>error + 'a\<close>, with \<open>Inl\<close> the exception.
\<close>

datatype error =
    ValueError | RuntimeError | IndexError | KeyError | AttributeError
  | TypeError | ZeroDivisionError | FileNotFoundError | UnpicklingError

text \<open>Python's slice \<^verbatim>\<open>xs[a:b]\<close> for non-negative bounds: it clamps, it never raises.\<close>

definition slice :: "'a list \<Rightarrow> nat \<Rightarrow> nat \<Rightarrow> 'a list" where
  "slice xs a b = take (b - a) (drop a xs)"

text \<open>
  \<^verbatim>\<open>sorted(xs, key=key, reverse=True)\<close>. CPython reverses the list, runs its stable
  ascending sort and reverses the result, which keeps equal keys in their original order.
\<close>

definition sorted_reverse :: "('a \<Rightarrow> 'k::linorder) \<Rightarrow> 'a list \<Rightarrow> 'a list" where
  "sorted_reverse key xs = rev (sort_key key (rev xs))"

section \<open>The batch assembler\<close>

text \<open>
  \<^verbatim>\<open>torch.nn.utils.rnn.pack_sequence(sequences)\<close> with its default
  \<^verbatim>\<open>enforce_sorted=True\<close>, as the library documents it: the list must be non-empty,
  sorted by decreasing length, and hold no empty sequence (each a RuntimeError). The
  packed data is time-major: for each timestep \<open>t\<close> the \<open>t\<close>-th token of every sequence
  longer than \<open>t\<close>, in batch order; \<open>batch_sizes ! t\<close> counts those sequences.
\<close>

definition pack_sequence :: "'a list list \<Rightarrow> error + ('a list \<times> nat list)" where
  "pack_sequence sequences =
     (if sequences = [] then Inl RuntimeError
      else let lengths = map length sequences;
               max_len = foldr max lengths 0
           in if 0 \<in> set lengths then Inl RuntimeError
              else if \<not> sorted_wrt (\<ge>) lengths then Inl RuntimeError
              else Inr (concat (map (\<lambda>t. map (\<lambda>s. s ! t) (filter (\<lambda>s. t < length s) sequences))
                                    [0..<max_len]),
                        map (\<lambda>t. length (filter (\<lambda>s. t < length s) sequences)) [0..<max_len]))"

text \<open>
  A raw example is \<open>(feature, cap_vec, caption)\<close>; the feature is opaque. The collate
  function returns \<open>(len_sorted_features, packed_cap_vecs, len_sorted_captions, seq_lens)\<close>,
  the packed sequence being the pair \<open>(data, batch_sizes)\<close> and \<open>seq_lens\<close> a column of
  floats. Unpacking \<^verbatim>\<open>zip(*batch)\<close> of an empty batch into three names is a ValueError.
\<close>

definition pack_collate_fn ::
  "('f \<times> int list \<times> string) list \<Rightarrow>
     error + ('f list \<times> (int list \<times> nat list) \<times> string list \<times> real list list)" where
  "pack_collate_fn batch =
     (if batch = [] then Inl ValueError
      else let features = map fst batch;
               cap_vecs = map (\<lambda>ex. fst (snd ex)) batch;
               captions = map (\<lambda>ex. snd (snd ex)) batch;
               len_sorted_idx = sorted_reverse (\<lambda>x. length (cap_vecs ! x)) [0..<length cap_vecs];
               len_sorted_cap_vecs = map (\<lambda>i. cap_vecs ! i) len_sorted_idx;
               len_sorted_features = map (\<lambda>i. features ! i) len_sorted_idx;
               len_sorted_captions = map (\<lambda>i. captions ! i) len_sorted_idx;
               seq_lens = map (\<lambda>cap_vec. [real (length cap_vec)]) len_sorted_cap_vecs
           in case pack_sequence len_sorted_cap_vecs of
                Inl e \<Rightarrow> Inl e
              | Inr packed_cap_vecs \<Rightarrow>
                  Inr (len_sorted_features, packed_cap_vecs, len_sorted_captions, seq_lens))"


section \<open>Tensor operations of the training step\<close>

text \<open>
  Tensors of floats are lists of reals (a matrix is a list of rows): rounding, infinities
  and NaN are outside the model. The library functions are written from their
  documentation.

  \<^verbatim>\<open>nn.CrossEntropyLoss(ignore_index, reduction='sum')\<close>: the input holds one row of
  scores per example, the target one class index per example. A differing number of rows
  and targets is a ValueError, a target outside the classes (other than
  \<open>ignore_index\<close>) an IndexError. The result is the sum, over the targets that are not
  \<open>ignore_index\<close>, of the negative log-softmax of the row at the target.
\<close>

definition cross_entropy_row :: "real list \<Rightarrow> nat \<Rightarrow> real" where
  "cross_entropy_row row t = ln (sum_list (map exp row)) - row ! t"

definition word_criterion :: "int \<Rightarrow> real list list \<Rightarrow> int list \<Rightarrow> error + real" where
  "word_criterion ignore_index input target =
     (if length input \<noteq> length target then Inl ValueError
      else if list_ex (\<lambda>(row, t). t \<noteq> ignore_index \<and> (t < 0 \<or> int (length row) \<le> t))
                (zip input target) then Inl IndexError
      else Inr (sum_list (map (\<lambda>(row, t). if t = ignore_index then 0
                                          else cross_entropy_row row (nat t))
                          (zip input target))))"

text \<open>
  \<^verbatim>\<open>torch.argmax(logits, dim=-1)\<close>: per row, the index of the first maximal score; a
  row with no column is an IndexError.
\<close>

fun argmax_from :: "nat \<Rightarrow> real \<Rightarrow> nat \<Rightarrow> real list \<Rightarrow> nat" where
  "argmax_from best_i best_v i [] = best_i"
| "argmax_from best_i best_v i (x # xs) =
     (if best_v < x then argmax_from i x (Suc i) xs else argmax_from best_i best_v (Suc i) xs)"

definition argmax :: "real list \<Rightarrow> nat" where
  "argmax row = (case row of [] \<Rightarrow> 0 | x # xs \<Rightarrow> argmax_from 0 x 1 xs)"

definition argmax_rows :: "real list list \<Rightarrow> error + nat list" where
  "argmax_rows logits = (if [] \<in> set logits then Inl IndexError else Inr (map argmax logits))"

text \<open>
  \<^verbatim>\<open>torch.sum(predicted == target)\<close> for two vectors of the same length (the loss of the
  line before has already refused every other case).
\<close>

definition count_equal :: "nat list \<Rightarrow> int list \<Rightarrow> nat" where
  "count_equal predicted target = length (filter (\<lambda>(p, t). int p = t) (zip predicted target))"

text \<open>
  \<^verbatim>\<open>nn.utils.rnn.pad_sequence(sequences)\<close> with \<^verbatim>\<open>batch_first=False\<close>: from a list of \<open>T\<close>
  matrices (\<open>n\<^sub>t \<times> L\<close>) the tensor \<open>max n\<^sub>t \<times> T \<times> L\<close>, the missing rows zero. An empty list
  and differing row widths are errors. \<^verbatim>\<open>torch.sum(t, 1)\<close> then sums over the \<open>T\<close> axis.
\<close>

definition ncols :: "'a list list \<Rightarrow> nat" where
  "ncols t = (case t of [] \<Rightarrow> 0 | row # _ \<Rightarrow> length row)"

definition pad_sequence :: "real list list list \<Rightarrow> error + real list list list" where
  "pad_sequence sequences =
     (if sequences = [] then Inl RuntimeError
      else let max_len = foldr max (map length sequences) 0;
               trailing = ncols (hd sequences)
           in if list_ex (\<lambda>a. list_ex (\<lambda>row. length row \<noteq> trailing) a) sequences
              then Inl RuntimeError
              else Inr (map (\<lambda>j. map (\<lambda>a. if j < length a then a ! j else replicate trailing 0)
                                     sequences)
                            [0..<max_len]))"

definition sum_dim1 :: "real list list list \<Rightarrow> real list list" where
  "sum_dim1 t = map (\<lambda>m. map (\<lambda>l. sum_list (map (\<lambda>row. row ! l) m)) [0..<ncols m]) t"

text \<open>
  \<^verbatim>\<open>nn.MSELoss(reduction='sum')\<close> on two matrices of the same shape. The library
  broadcasts differing shapes with a warning; the model refuses them.
\<close>

definition alpha_criterion :: "real list list \<Rightarrow> real list list \<Rightarrow> error + real" where
  "alpha_criterion input target =
     (if map length input \<noteq> map length target then Inl RuntimeError
      else Inr (sum_list (map (\<lambda>(r, r'). sum_list (map (\<lambda>(x, y). (x - y)\<^sup>2) (zip r r')))
                          (zip input target))))"

text \<open>\<^verbatim>\<open>t.repeat(1, n)\<close>: every row \<open>n\<close> times side by side; \<^verbatim>\<open>t / n\<close> elementwise.\<close>

definition repeat_cols :: "real list list \<Rightarrow> nat \<Rightarrow> real list list" where
  "repeat_cols t n = map (\<lambda>row. concat (replicate n row)) t"

definition div_scalar :: "real list list \<Rightarrow> nat \<Rightarrow> real list list" where
  "div_scalar t n = map (map (\<lambda>x. x / real n)) t"

section \<open>Checkpoint files\<close>

text \<open>
  The dictionary that \<^verbatim>\<open>_save\<close> pickles; \<open>None\<close> is an absent key. A file of the file
  system is such a pickle, a JSON list of captions, or bytes that \<^verbatim>\<open>torch.load\<close> cannot
  read. Paths are compared as strings.
\<close>

record ('m, 'o) checkpoint =
  ck_epoch :: "int option"
  ck_iteration :: "int option"
  ck_model_state_dict :: "'m option"
  ck_optimizer_state_dict :: "'o option"
  ck_loss :: "real option"

datatype ('m, 'o) fs_file =
    Garbage
  | Pickle "('m, 'o) checkpoint"
  | Json "(int \<times> string) list"

text \<open>\<^verbatim>\<open>str(n)\<close> of an integer and \<^verbatim>\<open>os.path.join\<close> of two POSIX paths.\<close>

fun str_nat :: "nat \<Rightarrow> string" where
  "str_nat n = (if n < 10 then [''0123456789'' ! n]
                else str_nat (n div 10) @ [''0123456789'' ! (n mod 10)])"

definition str_int :: "int \<Rightarrow> string" where
  "str_int i = (if i < 0 then CHR ''-'' # str_nat (nat (- i)) else str_nat (nat i))"

definition path_join :: "string \<Rightarrow> string \<Rightarrow> string" where
  "path_join a b =
     (if b \<noteq> [] \<and> hd b = CHR ''/'' then b
      else if a = [] \<or> last a = CHR ''/'' then a @ b
      else a @ ''/'' @ b)"

section \<open>The solver\<close>

text \<open>
  A method of the solver returns its value together with the state it leaves, or raises
  and leaves the state that was reached when the exception left the method.
\<close>

datatype ('a, 's) outcome = Return 'a 's | Raise error 's

type_synonym 'f packed_batch =
  "'f list \<times> (int list \<times> nat list) \<times> string list \<times> real list list"

text \<open>
  What a data loader yields: the pair \<open>(features, image_ids)\<close> of the evaluation sets,
  or the four-tuple of \<open>pack_collate_fn\<close>. What \<^verbatim>\<open>test\<close> can be given as its dataset:
  nothing, a list of raw examples, or (as the iteration handler does) a loader.
\<close>

datatype 'f loader_batch =
    Pair2 "'f list" "int list"
  | Packed4 "'f packed_batch"

datatype 'f dataset_arg =
    NoDataset
  | Dataset "('f \<times> int list \<times> string) list"
  | LoaderArg "'f loader_batch list"

text \<open>
  The collaborators, which are not part of \<^verbatim>\<open>core/solver.py\<close>, are parameters: the
  model (its weights are a value of type \<open>'m\<close>; \<open>forward\<close> is \<^verbatim>\<open>self.model(...)\<close>,
  \<open>model_L\<close> is \<^verbatim>\<open>self.model.L\<close>), the optimizers, whose state is a value of type \<open>'o\<close>
  (\<open>backward_step\<close> is \<^verbatim>\<open>loss.backward(); self.optimizer.step()\<close>), the beam decoder,
  and \<^verbatim>\<open>decode_captions\<close> and \<^verbatim>\<open>evaluate\<close> of \<^verbatim>\<open>core/utils.py\<close>. They are taken to be
  deterministic and to return.
\<close>

record ('m, 'o, 'f, 'p, 'h) captioner =
  batch_norm :: "'m \<Rightarrow> 'f list \<Rightarrow> 'f list"
  project_features :: "'m \<Rightarrow> 'f list \<Rightarrow> 'p list"
  get_initial_lstm :: "'m \<Rightarrow> 'f list \<Rightarrow> 'h list list \<times> 'h list list"
  forward :: "'m \<Rightarrow> 'f list \<Rightarrow> 'p list \<Rightarrow> int list \<Rightarrow> 'h list list \<Rightarrow> 'h list list \<Rightarrow>
              real list list \<times> real list list \<times> ('h list list \<times> 'h list list)"
  model_L :: nat
  adam :: "'m \<Rightarrow> real \<Rightarrow> 'o"
  rmsprop :: "'m \<Rightarrow> real \<Rightarrow> 'o"
  backward_step :: "'m \<Rightarrow> 'o \<Rightarrow> 'f packed_batch \<Rightarrow> 'm \<times> 'o"
  decode :: "'m \<Rightarrow> 'f list \<Rightarrow> int list list"
  decode_captions :: "int list list \<Rightarrow> (int \<Rightarrow> string option) \<Rightarrow> string list"
  evaluate :: "(string \<Rightarrow> ('m, 'o) fs_file option) \<Rightarrow> (string \<times> real) list"

text \<open>The keyword arguments of the constructor and their defaults.\<close>

record kwargs =
  kw_n_time_steps :: int
  kw_batch_size :: nat
  kw_beam_size :: int
  kw_optimizer :: string
  kw_learning_rate :: real
  kw_metric :: string
  kw_alpha_c :: real
  kw_snapshot_steps :: int
  kw_eval_every :: int
  kw_log_path :: string
  kw_checkpoint_dir :: string
  kw_checkpoint :: "string option"
  kw_device :: string

definition default_kwargs :: kwargs where
  "default_kwargs =
     \<lparr>kw_n_time_steps = 31, kw_batch_size = 100, kw_beam_size = 3, kw_optimizer = ''adam'',
      kw_learning_rate = 0.01, kw_metric = ''CIDEr'', kw_alpha_c = 1.0,
      kw_snapshot_steps = 100, kw_eval_every = 200, kw_log_path = ''./log/'',
      kw_checkpoint_dir = ''./model/'', kw_checkpoint = None, kw_device = ''cuda:0''\<rparr>"

text \<open>
  The solver object with the world it acts on: the attributes of \<^verbatim>\<open>self\<close> (an attribute
  that may never be assigned is an option), the state of the model, the scalars written
  to the summary writer, and the file system (\<open>files\<close>, and the directories \<open>dirs\<close>).
\<close>

record ('m, 'o, 'f) solver =
  model :: 'm
  start_id :: int
  null_id :: int
  end_id :: int
  idx_to_word :: "int \<Rightarrow> string option"
  n_time_steps :: int
  batch_size :: nat
  beam_size :: int
  update_rule :: string
  learning_rate :: real
  metric :: string
  alpha_c :: real
  snapshot_steps :: int
  eval_every :: int
  log_path :: string
  checkpoint_dir :: string
  checkpoint_path :: "string option"
  device :: string
  train_dataset :: "('f \<times> int list \<times> string) list"
  val_loader :: "'f loader_batch list"
  test_loader :: "'f dataset_arg option"
  optimizer :: "'o option"
  start_iter :: "int option"
  writer :: "(string \<times> real \<times> int) list"
  files :: "string \<Rightarrow> ('m, 'o) fs_file option"
  dirs :: "string set"

subsection \<open>Checkpoint manager\<close>

definition checkpoint_file :: "('m, 'o, 'f) solver \<Rightarrow> int \<Rightarrow> string" where
  "checkpoint_file s iteration = path_join (checkpoint_dir s) (str_int iteration @ ''.pth'')"

text \<open>
  \<^verbatim>\<open>_save\<close>. Reading \<^verbatim>\<open>self.optimizer\<close> when the constructor has assigned none is an
  AttributeError. The write itself is taken to succeed.
\<close>

definition priv_save ::
  "('m, 'o, 'f) solver \<Rightarrow> int \<Rightarrow> int \<Rightarrow> real \<Rightarrow> (unit, ('m, 'o, 'f) solver) outcome" where
  "priv_save s epoch iteration loss =
     (case optimizer s of
        None \<Rightarrow> Raise AttributeError s
      | Some optimizer_state \<Rightarrow>
          Return () (s\<lparr>files := (files s)(checkpoint_file s iteration \<mapsto>
            Pickle \<lparr>ck_epoch = Some epoch, ck_iteration = Some iteration,
                    ck_model_state_dict = Some (model s),
                    ck_optimizer_state_dict = Some optimizer_state,
                    ck_loss = Some loss\<rparr>)\<rparr>))"

text \<open>
  \<^verbatim>\<open>torch.load\<close>: a missing file and an unreadable one are errors. \<^verbatim>\<open>_load\<close> then
  restores the model, the optimizer and the start iteration, in this order, each from its
  key (a missing key is a KeyError).
\<close>

definition torch_load ::
  "(string \<Rightarrow> ('m, 'o) fs_file option) \<Rightarrow> string \<Rightarrow> error + ('m, 'o) checkpoint" where
  "torch_load fs model_path =
     (case fs model_path of
        None \<Rightarrow> Inl FileNotFoundError
      | Some Garbage \<Rightarrow> Inl UnpicklingError
      | Some (Json _) \<Rightarrow> Inl UnpicklingError
      | Some (Pickle c) \<Rightarrow> Inr c)"

definition priv_load ::
  "('m, 'o, 'f) solver \<Rightarrow> string \<Rightarrow> (unit, ('m, 'o, 'f) solver) outcome" where
  "priv_load s model_path =
     (case torch_load (files s) model_path of
        Inl e \<Rightarrow> Raise e s
      | Inr c \<Rightarrow>
          (case ck_model_state_dict c of
             None \<Rightarrow> Raise KeyError s
           | Some model_state \<Rightarrow>
               let s1 = s\<lparr>model := model_state\<rparr> in
               (case optimizer s1 of
                  None \<Rightarrow> Raise AttributeError s1
                | Some _ \<Rightarrow>
                    (case ck_optimizer_state_dict c of
                       None \<Rightarrow> Raise KeyError s1
                     | Some optimizer_state \<Rightarrow>
                         let s2 = s1\<lparr>optimizer := Some optimizer_state\<rparr> in
                         (case ck_iteration c of
                            None \<Rightarrow> Raise KeyError s2
                          | Some iteration \<Rightarrow>
                              Return () (s2\<lparr>start_iter := Some (iteration + 1)\<rparr>))))))"

subsection \<open>Training step engine\<close>

text \<open>
  The local variables that the loop of \<^verbatim>\<open>_train\<close> carries from one timestep to the
  next, and a \<^verbatim>\<open>for\<close> loop whose body may raise.
\<close>

record 'h loop_state =
  ls_start_idx :: nat
  ls_hidden_states :: "'h list list"
  ls_cell_states :: "'h list list"
  ls_loss :: real
  ls_acc :: real
  ls_alphas :: "real list list list"

fun for_range :: "(nat \<Rightarrow> 's \<Rightarrow> error + 's) \<Rightarrow> nat list \<Rightarrow> 's \<Rightarrow> error + 's" where
  "for_range body [] st = Inr st"
| "for_range body (i # is) st =
     (case body i st of Inl e \<Rightarrow> Inl e | Inr st' \<Rightarrow> for_range body is st')"

text \<open>
  One pass of the loop body (lines 157 to 169). The hidden and cell states have the
  layers as their first axis and the examples as their second, so
  \<^verbatim>\<open>hidden_states[:, :n]\<close> cuts every layer to its first \<open>n\<close> examples.
\<close>

definition train_iter ::
  "('m, 'o, 'f, 'p, 'h) captioner \<Rightarrow> 'm \<Rightarrow> int \<Rightarrow> 'f list \<Rightarrow> 'p list \<Rightarrow> int list \<Rightarrow> nat list \<Rightarrow>
     nat \<Rightarrow> 'h loop_state \<Rightarrow> error + 'h loop_state" where
  "train_iter M w null features features_proj cap_vecs batch_sizes i st =
     (let end_idx = ls_start_idx st + batch_sizes ! i;
          curr_cap_vecs = slice cap_vecs (ls_start_idx st) end_idx;
          (logits, alpha, (hidden_states, cell_states)) =
             forward M w (take (batch_sizes ! i) features) (take (batch_sizes ! i) features_proj)
               curr_cap_vecs
               (map (take (batch_sizes ! i)) (ls_hidden_states st))
               (map (take (batch_sizes ! i)) (ls_cell_states st));
          target = slice cap_vecs end_idx (end_idx + batch_sizes ! (i + 1))
      in case word_criterion null (take (batch_sizes ! (i + 1)) logits) target of
           Inl e \<Rightarrow> Inl e
         | Inr l \<Rightarrow>
             (case argmax_rows logits of
                Inl e \<Rightarrow> Inl e
              | Inr predicted \<Rightarrow>
                  Inr \<lparr>ls_start_idx = end_idx,
                       ls_hidden_states = hidden_states,
                       ls_cell_states = cell_states,
                       ls_loss = ls_loss st + l,
                       ls_acc = ls_acc st
                         + real (count_equal (take (batch_sizes ! (i + 1)) predicted) target),
                       ls_alphas = ls_alphas st @ [alpha]\<rparr>))"

definition train_loop ::
  "('m, 'o, 'f, 'p, 'h) captioner \<Rightarrow> 'm \<Rightarrow> int \<Rightarrow> 'f list \<Rightarrow> 'p list \<Rightarrow> int list \<Rightarrow> nat list \<Rightarrow>
     'h list list \<times> 'h list list \<Rightarrow> error + 'h loop_state" where
  "train_loop M w null features features_proj cap_vecs batch_sizes init =
     for_range (train_iter M w null features features_proj cap_vecs batch_sizes)
       [0..<length batch_sizes - 1]
       \<lparr>ls_start_idx = 0, ls_hidden_states = fst init, ls_cell_states = snd init,
        ls_loss = 0, ls_acc = 0, ls_alphas = []\<rparr>"

text \<open>The attention regulariser of lines 171 to 174, added to the loss when \<open>alpha_c > 0\<close>.\<close>

definition alphas_reg ::
  "real \<Rightarrow> nat \<Rightarrow> real list list list \<Rightarrow> real list list \<Rightarrow> error + real" where
  "alphas_reg coeff L alphas seq_lens =
     (case pad_sequence alphas of
        Inl e \<Rightarrow> Inl e
      | Inr padded \<Rightarrow>
          (case alpha_criterion (sum_dim1 padded) (repeat_cols (div_scalar seq_lens L) L) of
             Inl e \<Rightarrow> Inl e
           | Inr mse \<Rightarrow> Inr (coeff * mse)))"

text \<open>
  \<^verbatim>\<open>_train\<close>. Where the code would go on with a value that no real number stands for
  (the division of the loss by a first batch size of zero), the model stops with a
  ZeroDivisionError; \<^verbatim>\<open>loss.backward()\<close> is a RuntimeError when no timestep has made
  the loss a tensor. The division that gives the accuracy is Python's, which raises.
\<close>

definition priv_train ::
  "('m, 'o, 'f, 'p, 'h) captioner \<Rightarrow> ('m, 'o, 'f) solver \<Rightarrow> 'f packed_batch \<Rightarrow>
     (real \<times> real, ('m, 'o, 'f) solver) outcome" where
  "priv_train M s batch =
     (case optimizer s of
        None \<Rightarrow> Raise AttributeError s
      | Some optimizer_state \<Rightarrow>
          let (features0, packed_cap_vecs, captions, seq_lens) = batch;
              (cap_vecs, batch_sizes) = packed_cap_vecs;
              features = batch_norm M (model s) features0;
              features_proj = project_features M (model s) features
          in case train_loop M (model s) (null_id s) features features_proj cap_vecs batch_sizes
                    (get_initial_lstm M (model s) features) of
               Inl e \<Rightarrow> Raise e s
             | Inr st \<Rightarrow>
                 (case (if alpha_c s > 0
                        then (case alphas_reg (alpha_c s) (model_L M) (ls_alphas st) seq_lens of
                                Inl e \<Rightarrow> Inl e
                              | Inr reg \<Rightarrow> Inr (ls_loss st + reg))
                        else Inr (ls_loss st)) of
                    Inl e \<Rightarrow> Raise e s
                  | Inr loss \<Rightarrow>
                      if batch_sizes = [] then Raise IndexError s
                      else if batch_sizes ! 0 = 0 then Raise ZeroDivisionError s
                      else if ls_alphas st = [] then Raise RuntimeError s
                      else let (model_state, optimizer_state') =
                                 backward_step M (model s) optimizer_state batch;
                               s' = s\<lparr>model := model_state, optimizer := Some optimizer_state'\<rparr>;
                               total = sum_list (drop 1 batch_sizes)
                           in if total = 0 then Raise ZeroDivisionError s'
                              else Return (loss / real (batch_sizes ! 0), ls_acc st / real total) s'))"

subsection \<open>Evaluation loop\<close>

record test_state =
  ts_captions :: "(int \<times> string) list"
  ts_scores :: "(string \<times> real) list option"

text \<open>
  \<^verbatim>\<open>_test\<close>: the batch is unpacked into two names, which is a ValueError for the
  four-tuple of \<open>pack_collate_fn\<close>.
\<close>

definition priv_test ::
  "('m, 'o, 'f, 'p, 'h) captioner \<Rightarrow> ('m, 'o, 'f) solver \<Rightarrow> test_state \<Rightarrow> 'f loader_batch \<Rightarrow>
     error + test_state" where
  "priv_test M s st batch =
     (case batch of
        Packed4 _ \<Rightarrow> Inl ValueError
      | Pair2 features image_ids \<Rightarrow>
          let cap_vecs = decode M (model s) features;
              captions = decode_captions M cap_vecs (idx_to_word s)
          in Inr (st\<lparr>ts_captions := ts_captions st @ zip image_ids captions\<rparr>))"

definition testing_start_epoch_handler :: "test_state \<Rightarrow> test_state" where
  "testing_start_epoch_handler st = st\<lparr>ts_captions := []\<rparr>"

definition testing_end_epoch_handler ::
  "('m, 'o, 'f, 'p, 'h) captioner \<Rightarrow> ('m, 'o, 'f) solver \<Rightarrow> test_state \<Rightarrow> bool \<Rightarrow>
     test_state \<times> ('m, 'o, 'f) solver" where
  "testing_end_epoch_handler M s st is_val =
     (if is_val
      then let s' = s\<lparr>files := (files s)(''./data/val/val.candidate.captions.json'' \<mapsto>
                                           Json (ts_captions st))\<rparr>;
               caption_scores = evaluate M (files s')
           in (st\<lparr>ts_scores := Some caption_scores\<rparr>, s')
      else (st, s\<lparr>files := (files s)(''./data/test/test.candidate.captions.json'' \<mapsto>
                                       Json (ts_captions st))\<rparr>))"

text \<open>
  \<^verbatim>\<open>self.test_engine.run(loader)\<close>: one epoch over the loader. A loader collates lazily,
  so each of its batches is the batch or the exception of its collate function. The
  constructor registers the end-of-epoch handler with the argument \<open>True\<close>.
\<close>

fun test_batches ::
  "('m, 'o, 'f, 'p, 'h) captioner \<Rightarrow> ('m, 'o, 'f) solver \<Rightarrow> (error + 'f loader_batch) list \<Rightarrow>
     test_state \<Rightarrow> error + test_state" where
  "test_batches M s [] st = Inr st"
| "test_batches M s (b # bs) st =
     (case b of
        Inl e \<Rightarrow> Inl e
      | Inr batch \<Rightarrow>
          (case priv_test M s st batch of
             Inl e \<Rightarrow> Inl e
           | Inr st' \<Rightarrow> test_batches M s bs st'))"

definition test_engine_run ::
  "('m, 'o, 'f, 'p, 'h) captioner \<Rightarrow> ('m, 'o, 'f) solver \<Rightarrow> (error + 'f loader_batch) list \<Rightarrow>
     (test_state, ('m, 'o, 'f) solver) outcome" where
  "test_engine_run M s loader =
     (case test_batches M s loader
             (testing_start_epoch_handler \<lparr>ts_captions = [], ts_scores = None\<rparr>) of
        Inl e \<Rightarrow> Raise e s
      | Inr st \<Rightarrow>
          let (st', s') = testing_end_epoch_handler M s st True in Return st' s')"

text \<open>
  \<^verbatim>\<open>DataLoader(dataset, batch_size=n, collate_fn=pack_collate_fn)\<close> without shuffling:
  the examples in order, \<open>n\<close> at a time, each group collated when it is fetched. A
  batch size of zero is refused when the loader is built; \<^verbatim>\<open>None\<close> has no length and a
  loader cannot be indexed, which shows (as a TypeError) when the loader is iterated.
\<close>

function chunks :: "nat \<Rightarrow> 'a list \<Rightarrow> 'a list list" where
  "chunks n xs = (if n = 0 \<or> xs = [] then [] else take n xs # chunks n (drop n xs))"
  by pat_completeness auto
termination
  by (relation "measure (\<lambda>(n, xs). length xs)") auto

declare chunks.simps [simp del]

definition pack_loader ::
  "'f dataset_arg \<Rightarrow> nat \<Rightarrow> error + (error + 'f loader_batch) list" where
  "pack_loader test_dataset n =
     (if n = 0 then Inl ValueError
      else case test_dataset of
             NoDataset \<Rightarrow> Inr [Inl TypeError]
           | LoaderArg batches \<Rightarrow> Inr (if batches = [] then [] else [Inl TypeError])
           | Dataset examples \<Rightarrow>
               Inr (map (\<lambda>group. case pack_collate_fn group of
                                    Inl e \<Rightarrow> Inl e
                                  | Inr batch \<Rightarrow> Inr (Packed4 batch))
                        (chunks n examples)))"

text \<open>\<^verbatim>\<open>test\<close>: with \<open>is_validation\<close> it returns the scores, otherwise nothing.\<close>

definition test ::
  "('m, 'o, 'f, 'p, 'h) captioner \<Rightarrow> ('m, 'o, 'f) solver \<Rightarrow> 'f dataset_arg \<Rightarrow> bool \<Rightarrow>
     ((string \<times> real) list option, ('m, 'o, 'f) solver) outcome" where
  "test M s test_dataset is_validation =
     (if is_validation
      then (case test_engine_run M s (map Inr (val_loader s)) of
              Raise e s' \<Rightarrow> Raise e s'
            | Return test_state s' \<Rightarrow>
                (case ts_scores test_state of
                   None \<Rightarrow> Raise AttributeError s'
                 | Some caption_scores \<Rightarrow> Return (Some caption_scores) s'))
      else (case pack_loader test_dataset (batch_size s) of
              Inl e \<Rightarrow> Raise e s
            | Inr loader \<Rightarrow>
                (case test_engine_run M (s\<lparr>test_loader := Some test_dataset\<rparr>) loader of
                   Raise e s' \<Rightarrow> Raise e s'
                 | Return _ s' \<Rightarrow> Return None s')))"

subsection \<open>Event orchestrator\<close>

text \<open>
  \<^verbatim>\<open>training_end_iter_handler\<close>, with the iteration, the epoch and the output of the
  engine's state. Python's \<^verbatim>\<open>%\<close> raises on a zero divisor and otherwise is \<open>mod\<close>.
\<close>

definition training_end_iter_handler ::
  "('m, 'o, 'f, 'p, 'h) captioner \<Rightarrow> ('m, 'o, 'f) solver \<Rightarrow> int \<Rightarrow> int \<Rightarrow> real \<times> real \<Rightarrow>
     (unit, ('m, 'o, 'f) solver) outcome" where
  "training_end_iter_handler M s iteration epoch output =
     (let (loss, acc) = output;
          s1 = s\<lparr>writer := writer s @ [(''Loss'', loss, iteration), (''Accuracy'', acc, iteration)]\<rparr>
      in if eval_every s1 = 0 then Raise ZeroDivisionError s1
         else case (if iteration mod eval_every s1 = 0
                    then (case test M s1 (LoaderArg (val_loader s1)) True of
                            Raise e s2 \<Rightarrow> Raise e s2
                          | Return None s2 \<Rightarrow> Raise AttributeError s2
                          | Return (Some caption_scores) s2 \<Rightarrow>
                              Return () (s2\<lparr>writer := writer s2 @
                                 map (\<lambda>(metric, score). (metric, score, iteration))
                                     caption_scores\<rparr>))
                    else Return () s1) of
                Raise e s2 \<Rightarrow> Raise e s2
              | Return _ s2 \<Rightarrow>
                  if snapshot_steps s2 = 0 then Raise ZeroDivisionError s2
                  else if iteration mod snapshot_steps s2 = 0
                       then priv_save s2 epoch iteration loss
                       else Return () s2)"

text \<open>
  \<^verbatim>\<open>train\<close>: the training engine runs \<^verbatim>\<open>_train\<close> and then the iteration handler on every
  batch, counting iterations from 1 over all epochs and epochs from 1. The batches of each
  epoch (the loader shuffles) are given.
\<close>

fun train_epoch ::
  "('m, 'o, 'f, 'p, 'h) captioner \<Rightarrow> int \<Rightarrow> 'f packed_batch list \<Rightarrow> int \<Rightarrow> ('m, 'o, 'f) solver \<Rightarrow>
     (int, ('m, 'o, 'f) solver) outcome" where
  "train_epoch M epoch [] iteration s = Return iteration s"
| "train_epoch M epoch (batch # batches) iteration s =
     (case priv_train M s batch of
        Raise e s' \<Rightarrow> Raise e s'
      | Return output s' \<Rightarrow>
          (case training_end_iter_handler M s' (iteration + 1) epoch output of
             Raise e s'' \<Rightarrow> Raise e s''
           | Return _ s'' \<Rightarrow> train_epoch M epoch batches (iteration + 1) s''))"

fun train_engine_run ::
  "('m, 'o, 'f, 'p, 'h) captioner \<Rightarrow> 'f packed_batch list list \<Rightarrow> int \<Rightarrow> int \<Rightarrow>
     ('m, 'o, 'f) solver \<Rightarrow> (int, ('m, 'o, 'f) solver) outcome" where
  "train_engine_run M [] epoch iteration s = Return iteration s"
| "train_engine_run M (batches # epochs) epoch iteration s =
     (case train_epoch M (epoch + 1) batches iteration s of
        Raise e s' \<Rightarrow> Raise e s'
      | Return iteration' s' \<Rightarrow> train_engine_run M epochs (epoch + 1) iteration' s')"

text \<open>
  \<^verbatim>\<open>training_start_handler\<close> computes two numbers and drops them; the division by the
  number of batches of the training loader can raise.
\<close>

definition training_start_handler :: "('m, 'o, 'f) solver \<Rightarrow> (unit, ('m, 'o, 'f) solver) outcome" where
  "training_start_handler s =
     (case start_iter s of
        None \<Rightarrow> Raise AttributeError s
      | Some iteration \<Rightarrow>
          if length (chunks (batch_size s) (train_dataset s)) = 0 then Raise ZeroDivisionError s
          else Return () s)"

definition train ::
  "('m, 'o, 'f, 'p, 'h) captioner \<Rightarrow> ('m, 'o, 'f) solver \<Rightarrow> 'f packed_batch list list \<Rightarrow>
     (int, ('m, 'o, 'f) solver) outcome" where
  "train M s epochs =
     (case training_start_handler s of
        Raise e s' \<Rightarrow> Raise e s'
      | Return _ s' \<Rightarrow> train_engine_run M epochs 0 0 s')"

subsection \<open>Construction\<close>

text \<open>
  \<^verbatim>\<open>__init__\<close>, given the model, the vocabulary (the items of the dictionary), the two
  datasets, the keyword arguments and the file system. The validation set holds pairs
  \<open>(feature, image_id)\<close>, which its loader collates into pairs of lists. When it raises,
  the state it leaves tells what has become of the model and of the file system.

  First the attributes that are assigned from the arguments (lines 44 to 67); an
  attribute that is assigned later starts as \<open>None\<close>.
\<close>

definition init_attributes ::
  "'m \<Rightarrow> (string \<times> int) list \<Rightarrow> ('f \<times> int list \<times> string) list \<Rightarrow> ('f \<times> int) list \<Rightarrow> kwargs \<Rightarrow>
     (string \<Rightarrow> ('m, 'o) fs_file option) \<Rightarrow> string set \<Rightarrow> ('m, 'o, 'f) solver" where
  "init_attributes model0 word_to_idx train_data val_dataset kw files0 dirs0 =
     (let lookup = (\<lambda>w. case map_of word_to_idx w of None \<Rightarrow> 0 | Some i \<Rightarrow> i)
      in \<lparr>model = model0,
          start_id = lookup ''<START>'',
          null_id = lookup ''<NULL>'',
          end_id = lookup ''<END>'',
          idx_to_word = map_of (rev (map (\<lambda>(w, i). (i, w)) word_to_idx)),
          n_time_steps = kw_n_time_steps kw,
          batch_size = kw_batch_size kw,
          beam_size = kw_beam_size kw,
          update_rule = kw_optimizer kw,
          learning_rate = kw_learning_rate kw,
          metric = kw_metric kw,
          alpha_c = kw_alpha_c kw,
          snapshot_steps = kw_snapshot_steps kw,
          eval_every = kw_eval_every kw,
          log_path = kw_log_path kw,
          checkpoint_dir = kw_checkpoint_dir kw,
          checkpoint_path = kw_checkpoint kw,
          device = kw_device kw,
          train_dataset = train_data,
          val_loader = map (\<lambda>group. Pair2 (map fst group) (map snd group))
                           (chunks (kw_batch_size kw) val_dataset),
          test_loader = None,
          optimizer = None,
          start_iter = None,
          writer = [],
          files = files0,
          dirs = dirs0\<rparr>)"

text \<open>
  The optimizer by update rule (lines 70 to 73): the \<^verbatim>\<open>if\<close> has no \<^verbatim>\<open>else\<close>, so any other
  rule leaves the attribute unassigned.
\<close>

definition set_optimizer ::
  "('m, 'o, 'f, 'p, 'h) captioner \<Rightarrow> ('m, 'o, 'f) solver \<Rightarrow> ('m, 'o, 'f) solver" where
  "set_optimizer M s =
     (if update_rule s = ''adam''
      then s\<lparr>optimizer := Some (adam M (model s) (learning_rate s))\<rparr>
      else if update_rule s = ''rmsprop''
      then s\<lparr>optimizer := Some (rmsprop M (model s) (learning_rate s))\<rparr>
      else s)"

text \<open>\<^verbatim>\<open>os.path.exists\<close> and \<^verbatim>\<open>os.makedirs\<close>.\<close>

definition os_path_exists :: "('m, 'o, 'f) solver \<Rightarrow> string \<Rightarrow> bool" where
  "os_path_exists s p \<longleftrightarrow> p \<in> dirs s \<or> files s p \<noteq> None"

definition os_makedirs :: "string \<Rightarrow> ('m, 'o, 'f) solver \<Rightarrow> ('m, 'o, 'f) solver" where
  "os_makedirs p s = s\<lparr>dirs := insert p (dirs s)\<rparr>"

definition CaptioningSolver_init ::
  "('m, 'o, 'f, 'p, 'h) captioner \<Rightarrow> 'm \<Rightarrow> (string \<times> int) list \<Rightarrow> ('f \<times> int list \<times> string) list \<Rightarrow>
     ('f \<times> int) list \<Rightarrow> kwargs \<Rightarrow> (string \<Rightarrow> ('m, 'o) fs_file option) \<Rightarrow> string set \<Rightarrow>
     (unit, ('m, 'o, 'f) solver) outcome" where
  "CaptioningSolver_init M model0 word_to_idx train_data val_dataset kw files0 dirs0 =
     (let s0 = init_attributes model0 word_to_idx train_data val_dataset kw files0 dirs0
      in if map_of word_to_idx ''<START>'' = None \<or> map_of word_to_idx ''<NULL>'' = None
            \<or> map_of word_to_idx ''<END>'' = None then Raise KeyError s0
         else if kw_batch_size kw = 0 then Raise ValueError s0
         else let s1 = set_optimizer M s0;
                  s2 = (if os_path_exists s1 (checkpoint_dir s1) then s1
                        else os_makedirs (checkpoint_dir s1) s1);
                  s3 = (if os_path_exists s2 (log_path s2) then s2
                        else os_makedirs (log_path s2) s2)
              in case checkpoint_path s3 of
                   Some model_path \<Rightarrow> priv_load s3 model_path
                 | None \<Rightarrow> Return () (s3\<lparr>start_iter := Some 1\<rparr>))"

section \<open>The training step in closed form\<close>

text \<open>
  The packed tokens of timestep \<open>t\<close>, by the sizes of the timesteps before it; the
  recurrent state after \<open>t\<close> timesteps; and what the model returns at timestep \<open>t\<close>.
  These follow the description of the training step, not the loop, and the loop is
  proved to compute them.
\<close>

definition step_tokens :: "int list \<Rightarrow> nat list \<Rightarrow> nat \<Rightarrow> int list" where
  "step_tokens cap_vecs batch_sizes t =
     take (batch_sizes ! t) (drop (sum_list (take t batch_sizes)) cap_vecs)"

fun state_after ::
  "('m, 'o, 'f, 'p, 'h) captioner \<Rightarrow> 'm \<Rightarrow> 'f list \<Rightarrow> 'p list \<Rightarrow> int list \<Rightarrow> nat list \<Rightarrow>
     'h list list \<times> 'h list list \<Rightarrow> nat \<Rightarrow> 'h list list \<times> 'h list list" where
  "state_after M w features features_proj cap_vecs batch_sizes init 0 = init"
| "state_after M w features features_proj cap_vecs batch_sizes init (Suc t) =
     (let (h, c) = state_after M w features features_proj cap_vecs batch_sizes init t
      in snd (snd (forward M w (take (batch_sizes ! t) features)
                     (take (batch_sizes ! t) features_proj)
                     (step_tokens cap_vecs batch_sizes t)
                     (map (take (batch_sizes ! t)) h) (map (take (batch_sizes ! t)) c))))"

definition step_output ::
  "('m, 'o, 'f, 'p, 'h) captioner \<Rightarrow> 'm \<Rightarrow> 'f list \<Rightarrow> 'p list \<Rightarrow> int list \<Rightarrow> nat list \<Rightarrow>
     'h list list \<times> 'h list list \<Rightarrow> nat \<Rightarrow>
     real list list \<times> real list list \<times> ('h list list \<times> 'h list list)" where
  "step_output M w features features_proj cap_vecs batch_sizes init t =
     (let (h, c) = state_after M w features features_proj cap_vecs batch_sizes init t
      in forward M w (take (batch_sizes ! t) features) (take (batch_sizes ! t) features_proj)
           (step_tokens cap_vecs batch_sizes t)
           (map (take (batch_sizes ! t)) h) (map (take (batch_sizes ! t)) c))"

text \<open>
  The cross-entropy of one timestep as the description gives it: the sum, over the
  targets that are not the padding id, of the negative log-softmax at the target.
\<close>

definition cross_entropy_sum :: "int \<Rightarrow> real list list \<Rightarrow> int list \<Rightarrow> real" where
  "cross_entropy_sum null logits target =
     sum_list (map (\<lambda>j. if target ! j = null then 0
                             else cross_entropy_row (logits ! j) (nat (target ! j)))
                   [0..<length target])"

definition correct_count :: "real list list \<Rightarrow> int list \<Rightarrow> nat" where
  "correct_count logits target =
     length (filter (\<lambda>j. int (argmax (logits ! j)) = target ! j) [0..<length target])"

definition step_loss ::
  "('m, 'o, 'f, 'p, 'h) captioner \<Rightarrow> 'm \<Rightarrow> int \<Rightarrow> 'f list \<Rightarrow> 'p list \<Rightarrow> int list \<Rightarrow> nat list \<Rightarrow>
     'h list list \<times> 'h list list \<Rightarrow> nat \<Rightarrow> real" where
  "step_loss M w null features features_proj cap_vecs batch_sizes init t =
     cross_entropy_sum null
       (take (batch_sizes ! (t + 1))
          (fst (step_output M w features features_proj cap_vecs batch_sizes init t)))
       (step_tokens cap_vecs batch_sizes (t + 1))"

definition step_correct ::
  "('m, 'o, 'f, 'p, 'h) captioner \<Rightarrow> 'm \<Rightarrow> 'f list \<Rightarrow> 'p list \<Rightarrow> int list \<Rightarrow> nat list \<Rightarrow>
     'h list list \<times> 'h list list \<Rightarrow> nat \<Rightarrow> nat" where
  "step_correct M w features features_proj cap_vecs batch_sizes init t =
     correct_count
       (take (batch_sizes ! (t + 1))
          (fst (step_output M w features features_proj cap_vecs batch_sizes init t)))
       (step_tokens cap_vecs batch_sizes (t + 1))"

definition step_alpha ::
  "('m, 'o, 'f, 'p, 'h) captioner \<Rightarrow> 'm \<Rightarrow> 'f list \<Rightarrow> 'p list \<Rightarrow> int list \<Rightarrow> nat list \<Rightarrow>
     'h list list \<times> 'h list list \<Rightarrow> nat \<Rightarrow> real list list" where
  "step_alpha M w features features_proj cap_vecs batch_sizes init t =
     fst (snd (step_output M w features features_proj cap_vecs batch_sizes init t))"

text \<open>
  The attention that example \<open>j\<close> gave to location \<open>l\<close>, summed over the timesteps, a
  timestep that has no row for the example counting as zero; and the squared deviation of
  these sums from \<open>length / L\<close>, summed over the examples and the \<open>L\<close> locations.
\<close>

definition attention_sum :: "real list list list \<Rightarrow> nat \<Rightarrow> nat \<Rightarrow> real" where
  "attention_sum alphas j l = sum_list (map (\<lambda>a. if j < length a then a ! j ! l else 0) alphas)"

definition coverage_penalty :: "nat \<Rightarrow> real list list list \<Rightarrow> real list \<Rightarrow> real" where
  "coverage_penalty L alphas lens =
     sum_list (map (\<lambda>j. sum_list (map (\<lambda>l. (attention_sum alphas j l - lens ! j / real L)\<^sup>2)
                                      [0..<L]))
                   [0..<length lens])"

text \<open>
  What the training step needs from the model for its shapes to fit: one row of \<open>V\<close>
  scores and one row of \<open>L\<close> attention weights for every token it is given.
\<close>

definition well_shaped :: "('m, 'o, 'f, 'p, 'h) captioner \<Rightarrow> nat \<Rightarrow> bool" where
  "well_shaped M V \<longleftrightarrow>
     (\<forall>w features features_proj tokens h c.
        length (fst (forward M w features features_proj tokens h c)) = length tokens
        \<and> list_all (\<lambda>row. length row = V) (fst (forward M w features features_proj tokens h c))
        \<and> length (fst (snd (forward M w features features_proj tokens h c))) = length tokens
        \<and> list_all (\<lambda>row. length row = model_L M)
             (fst (snd (forward M w features features_proj tokens h c))))"

section \<open>Example inputs\<close>

text \<open>
  The two examples of the end-to-end scenario, with the vocabulary
  \<open><NULL> = 0\<close>, \<open><START> = 1\<close>, \<open><END> = 2\<close>, \<open>cat = 3\<close>, \<open>sat = 4\<close>, the shorter one
  first; and a batch whose only token sequence is empty.
\<close>

definition example_batch :: "(nat \<times> int list \<times> string) list" where
  "example_batch = [(20, [1, 3, 2], ''cat''), (10, [1, 3, 4, 2], ''cat sat'')]"

definition empty_caption_batch :: "(nat \<times> int list \<times> string) list" where
  "empty_caption_batch = [(20, [], [])]"

text \<open>
  A stand-in for the collaborators, on which the definitions can be run: features,
  weights and optimizer states are numbers, the vocabulary has five words and the
  attention two locations; every score row prefers the word \<open>2\<close>, every attention row is
  uniform. The solver is the one that the constructor builds for it from the default
  arguments on an empty file system; \<open>example_packed\<close> is the collated example batch.
\<close>

definition toy_model :: "(nat, nat, nat, nat, nat) captioner" where
  "toy_model =
     \<lparr>batch_norm = (\<lambda>w features. features),
      project_features = (\<lambda>w features. features),
      get_initial_lstm = (\<lambda>w features. ([map (\<lambda>_. 0) features], [map (\<lambda>_. 0) features])),
      forward = (\<lambda>w features features_proj tokens h c.
                   (map (\<lambda>_. [0, 0, 1, 0, 0]) tokens, map (\<lambda>_. [1 / 2, 1 / 2]) tokens, (h, c))),
      model_L = 2,
      adam = (\<lambda>w lr. 0),
      rmsprop = (\<lambda>w lr. 1),
      backward_step = (\<lambda>w opt batch. (w + 1, opt + 1)),
      decode = (\<lambda>w features. map (\<lambda>_. [1, 3, 2]) features),
      decode_captions = (\<lambda>cap_vecs words. map (\<lambda>_. ''cat'') cap_vecs),
      evaluate = (\<lambda>fs. [(''CIDEr'', 1)])\<rparr>"

definition toy_vocabulary :: "(string \<times> int) list" where
  "toy_vocabulary = [(''<NULL>'', 0), (''<START>'', 1), (''<END>'', 2), (''cat'', 3), (''sat'', 4)]"

definition toy_solver :: "(nat, nat, nat) solver" where
  "toy_solver =
     \<lparr>model = 0, start_id = 1, null_id = 0, end_id = 2,
      idx_to_word = map_of (rev (map (\<lambda>(w, i). (i, w)) toy_vocabulary)),
      n_time_steps = 31, batch_size = 100, beam_size = 3, update_rule = ''adam'',
      learning_rate = 0.01, metric = ''CIDEr'', alpha_c = 1, snapshot_steps = 100,
      eval_every = 200, log_path = ''./log/'', checkpoint_dir = ''./model/'',
      checkpoint_path = None, device = ''cuda:0'', train_dataset = example_batch,
      val_loader = [Pair2 [7] [42]], test_loader = None, optimizer = Some 0,
      start_iter = Some 1, writer = [], files = (\<lambda>p. None),
      dirs = {''./log/'', ''./model/''}\<rparr>"

definition example_packed :: "nat packed_batch" where
  "example_packed =
     ([10, 20], ([1, 1, 3, 3, 4, 2, 2], [2, 2, 2, 1]), [''cat sat'', ''cat''], [[4], [3]])"

section \<open>Sorting by descending length\<close>

lemma insort_key_lex:
  assumes "sorted_wrt (\<lambda>a b. f a < f b \<or> (f a = f b \<and> R a b)) ys"
    and "\<forall>y\<in>set ys. R x y"
  shows "sorted_wrt (\<lambda>a b. f a < f b \<or> (f a = f b \<and> R a b)) (insort_key f x ys)"
  using assms
proof (induction ys)
  case Nil
  then show ?case by simp
next
  case (Cons y ys)
  show ?case
  proof (cases "f x \<le> f y")
    case True
    have "\<forall>z\<in>set ys. f x < f z \<or> (f x = f z \<and> R x z)"
    proof
      fix z assume z: "z \<in> set ys"
      with Cons.prems(1) have "f y \<le> f z" by auto
      with True z Cons.prems(2) show "f x < f z \<or> (f x = f z \<and> R x z)" by auto
    qed
    with True Cons.prems show ?thesis by auto
  next
    case False
    with Cons show ?thesis by (auto simp: set_insort_key)
  qed
qed

lemma sort_key_lex:
  assumes "sorted_wrt R xs"
  shows "sorted_wrt (\<lambda>a b. f a < f b \<or> (f a = f b \<and> R a b)) (sort_key f xs)"
  using assms
proof (induction xs)
  case Nil
  then show ?case by simp
next
  case (Cons x xs)
  then have "\<forall>y\<in>set (sort_key f xs). R x y" by simp
  with Cons show ?case by (simp add: insort_key_lex)
qed

lemma sorted_reverse_lex:
  assumes "sorted_wrt R xs"
  shows "sorted_wrt (\<lambda>a b. key b < key a \<or> (key a = key b \<and> R a b)) (sorted_reverse key xs)"
proof -
  have "sorted_wrt (\<lambda>a b. R b a) (rev xs)"
    using assms by (simp add: sorted_wrt_rev)
  then have "sorted_wrt (\<lambda>a b. key a < key b \<or> (key a = key b \<and> R b a)) (sort_key key (rev xs))"
    by (rule sort_key_lex)
  then show ?thesis
    unfolding sorted_reverse_def sorted_wrt_rev
    by (rule sorted_wrt_mono_rel [rotated]) auto
qed

lemma mset_sorted_reverse: "mset (sorted_reverse key xs) = mset xs"
  by (simp add: sorted_reverse_def)

lemma set_sorted_reverse: "set (sorted_reverse key xs) = set xs"
  by (simp add: sorted_reverse_def)

section \<open>The packed sequence\<close>

lemma foldr_max_ge: "x \<in> set xs \<Longrightarrow> x \<le> foldr max xs (0::nat)"
  by (induction xs) auto


lemma batch_sizes_sorted:
  "sorted_wrt (\<ge>) (map (\<lambda>t. length (filter (\<lambda>s. t < length s) (sequences::'a list list))) [0..<n])"
proof -
  have "length (filter (\<lambda>s. j < length s) sequences) \<le> length (filter (\<lambda>s. i < length s) sequences)"
    if "i < j" for i j
  proof -
    have "filter (\<lambda>s. j < length s) sequences = filter (\<lambda>s. j < length s) (filter (\<lambda>s. i < length s) sequences)"
      using that by (auto intro!: filter_cong)
    then show ?thesis by (metis length_filter_le)
  qed
  then show ?thesis
    by (simp add: sorted_wrt_map sorted_wrt_iff_nth_less)
qed

lemma pack_sequence_ok:
  assumes "sequences \<noteq> []" "[] \<notin> set sequences" "sorted_wrt (\<ge>) (map length sequences)"
  shows "\<exists>data batch_sizes. pack_sequence sequences = Inr (data, batch_sizes)
     \<and> batch_sizes = map (\<lambda>t. length (filter (\<lambda>s. t < length s) sequences)) [0..<foldr max (map length sequences) 0]
     \<and> sorted_wrt (\<ge>) batch_sizes \<and> batch_sizes \<noteq> [] \<and> hd batch_sizes = length sequences
     \<and> length data = sum_list batch_sizes"
proof -
  let ?m = "foldr max (map length sequences) 0"
  from assms(1,2) have "length (hd sequences) > 0" "length (hd sequences) \<in> set (map length sequences)"
    by (cases sequences; auto)+
  then have m: "0 < ?m"
    using foldr_max_ge[of "length (hd sequences)" "map length sequences"] by linarith
  have z: "0 \<notin> set (map length sequences)" using assms(2) by auto
  have all: "filter (\<lambda>s. 0 < length s) sequences = sequences"
    using assms(2) by (auto intro!: filter_True) 
  have hd: "hd (map (\<lambda>t. length (filter (\<lambda>s. t < length s) sequences)) [0..<?m]) = length sequences"
    using m all by (simp add: hd_map upt_conv_Cons)
  show ?thesis
    using assms z m hd batch_sizes_sorted[of sequences ?m]
    by (simp add: pack_sequence_def Let_def length_concat comp_def)
qed

lemma foldr_max_le: "foldr max xs (0::nat) \<le> m \<longleftrightarrow> (\<forall>x\<in>set xs. x \<le> m)"
  by (induction xs) auto

lemma foldr_max_set: "set xs = set ys \<Longrightarrow> foldr max xs (0::nat) = foldr max ys 0"
  by (metis foldr_max_le order_antisym order_refl)

lemma length_filter_nth:
  "length (filter (\<lambda>i. P (xs ! i)) [0..<length xs]) = length (filter P xs)"
proof -
  have "filter P (map (\<lambda>i. xs ! i) [0..<length xs]) = map (\<lambda>i. xs ! i) (filter (\<lambda>i. P (xs ! i)) [0..<length xs])"
    by (simp add: filter_map comp_def)
  then show ?thesis by (metis length_map map_nth)
qed

lemma length_filter_perm:
  assumes "mset idx = mset [0..<length xs]"
  shows "length (filter P (map (\<lambda>i. xs ! i) idx)) = length (filter P xs)"
proof -
  have "length (filter P (map (\<lambda>i. xs ! i) idx)) = size (filter_mset (\<lambda>i. P (xs ! i)) (mset idx))"
    by (simp add: filter_map comp_def flip: mset_filter)
  also have "\<dots> = size (filter_mset (\<lambda>i. P (xs ! i)) (mset [0..<length xs]))"
    by (simp only: assms)
  also have "\<dots> = size (mset (filter (\<lambda>i. P (xs ! i)) [0..<length xs]))"
    by (simp only: mset_filter)
  also have "\<dots> = length (filter (\<lambda>i. P (xs ! i)) [0..<length xs])"
    by (simp only: size_mset)
  finally show ?thesis by (simp add: length_filter_nth)
qed


lemma pack_collate_fn_Inr:
  fixes batch :: "('f \<times> int list \<times> string) list"
  assumes "batch \<noteq> []" and "\<forall>ex\<in>set batch. fst (snd ex) \<noteq> []"
  shows "\<exists>idx data batch_sizes.
     pack_collate_fn batch =
       Inr (map (\<lambda>i. fst (batch ! i)) idx, (data, batch_sizes),
            map (\<lambda>i. snd (snd (batch ! i))) idx,
            map (\<lambda>i. [real (length (fst (snd (batch ! i))))]) idx)
     \<and> mset idx = mset [0..<length batch]
     \<and> sorted_wrt (\<lambda>i j. length (fst (snd (batch ! j))) < length (fst (snd (batch ! i)))
            \<or> (length (fst (snd (batch ! i))) = length (fst (snd (batch ! j))) \<and> i < j)) idx
     \<and> sorted_wrt (\<ge>) batch_sizes \<and> batch_sizes \<noteq> [] \<and> hd batch_sizes = length batch
     \<and> batch_sizes = map (\<lambda>t. length (filter (\<lambda>ex. t < length (fst (snd ex))) batch))
                          [0..<foldr max (map (\<lambda>ex. length (fst (snd ex))) batch) 0]
     \<and> length data = sum_list batch_sizes"
proof -
  define cap_vecs where "cap_vecs = map (\<lambda>ex. fst (snd ex)) batch"
  define idx where "idx = sorted_reverse (\<lambda>x. length (cap_vecs ! x)) [0..<length cap_vecs]"
  define sorted_cv where "sorted_cv = map (\<lambda>i. cap_vecs ! i) idx"
  have n: "length cap_vecs = length batch" by (simp add: cap_vecs_def)
  have perm: "mset idx = mset [0..<length batch]"
    by (simp add: idx_def mset_sorted_reverse n)
  then have set_idx: "set idx = {0..<length batch}"
    by (metis set_mset_mset set_upt)
  have nth: "cap_vecs ! i = fst (snd (batch ! i))" if "i \<in> set idx" for i
    using that set_idx by (simp add: cap_vecs_def)
  have lex: "sorted_wrt (\<lambda>i j. length (cap_vecs ! j) < length (cap_vecs ! i)
            \<or> (length (cap_vecs ! i) = length (cap_vecs ! j) \<and> i < j)) idx"
    unfolding idx_def by (rule sorted_reverse_lex) simp
  have lex': "sorted_wrt (\<lambda>i j. length (fst (snd (batch ! j))) < length (fst (snd (batch ! i)))
            \<or> (length (fst (snd (batch ! i))) = length (fst (snd (batch ! j))) \<and> i < j)) idx"
    by (rule sorted_wrt_mono_rel [OF _ lex]) (simp add: nth)
  have dec: "sorted_wrt (\<ge>) (map length sorted_cv)"
    unfolding sorted_cv_def sorted_wrt_map
    by (rule sorted_wrt_mono_rel [OF _ lex]) auto
  have len_idx: "length idx = length batch"
    using mset_eq_length [OF perm] by simp
  have ne: "sorted_cv \<noteq> []"
    using assms(1) len_idx by (auto simp: sorted_cv_def)
  have nonempty: "[] \<notin> set sorted_cv"
  proof
    assume "[] \<in> set sorted_cv"
    then obtain i where i: "i \<in> set idx" "cap_vecs ! i = []"
      by (auto simp: sorted_cv_def)
    then have "i < length batch" using set_idx by simp
    then have "batch ! i \<in> set batch" by simp
    with assms(2) have "fst (snd (batch ! i)) \<noteq> []" by blast
    with i nth show False by simp
  qed
  from pack_sequence_ok [OF ne nonempty dec] obtain data batch_sizes where
    ps: "pack_sequence sorted_cv = Inr (data, batch_sizes)"
    and bs: "batch_sizes = map (\<lambda>t. length (filter (\<lambda>s. t < length s) sorted_cv))
                               [0..<foldr max (map length sorted_cv) 0]"
    and rest: "sorted_wrt (\<ge>) batch_sizes" "batch_sizes \<noteq> []"
      "hd batch_sizes = length sorted_cv" "length data = sum_list batch_sizes"
    by blast
  have len: "length sorted_cv = length batch"
    using len_idx by (simp add: sorted_cv_def)
  have cnt: "length (filter (\<lambda>s. t < length s) sorted_cv)
             = length (filter (\<lambda>ex. t < length (fst (snd ex))) batch)" for t
    unfolding sorted_cv_def
    using length_filter_perm [of idx cap_vecs "\<lambda>s. t < length s"] perm n
    by (simp add: cap_vecs_def filter_map comp_def)
  have "set (map length sorted_cv) = set (map (\<lambda>ex. length (fst (snd ex))) batch)"
  proof -
    have "set sorted_cv = set cap_vecs"
      unfolding sorted_cv_def using set_idx n
      by (metis map_nth set_map set_upt)
    then show ?thesis by (simp add: cap_vecs_def image_image)
  qed
  then have mx: "foldr max (map length sorted_cv) 0
                 = foldr max (map (\<lambda>ex. length (fst (snd ex))) batch) 0"
    by (rule foldr_max_set)
  have feat: "map (\<lambda>i. map fst batch ! i) idx = map (\<lambda>i. fst (batch ! i)) idx"
    using set_idx by (intro map_cong) auto
  have capt: "map (\<lambda>i. map (\<lambda>ex. snd (snd ex)) batch ! i) idx = map (\<lambda>i. snd (snd (batch ! i))) idx"
    using set_idx by (intro map_cong) auto
  have lens: "map (\<lambda>cap_vec. [real (length cap_vec)]) sorted_cv
              = map (\<lambda>i. [real (length (fst (snd (batch ! i))))]) idx"
    unfolding sorted_cv_def using nth by (simp add: comp_def cong: map_cong)
  have "pack_collate_fn batch =
       Inr (map (\<lambda>i. fst (batch ! i)) idx, (data, batch_sizes),
            map (\<lambda>i. snd (snd (batch ! i))) idx,
            map (\<lambda>i. [real (length (fst (snd (batch ! i))))]) idx)"
    using assms(1) ps feat capt lens
    unfolding pack_collate_fn_def Let_def
    by (simp add: cap_vecs_def [symmetric] idx_def [symmetric] sorted_cv_def [symmetric])
  moreover have "batch_sizes = map (\<lambda>t. length (filter (\<lambda>ex. t < length (fst (snd ex))) batch))
                          [0..<foldr max (map (\<lambda>ex. length (fst (snd ex))) batch) 0]"
    using bs by (simp only: cnt mx)
  ultimately show ?thesis
    using perm lex' rest len by (intro exI conjI) simp_all
qed


text \<open>
  C1 (as amended). For every non-empty batch whose token sequences are all non-empty,
  \<open>pack_collate_fn\<close> returns; its features, captions and sequence lengths are those of
  the examples taken in the order \<open>idx\<close>, a permutation of the positions that is ordered
  by descending token-sequence length and, among equal lengths, by original position;
  and \<open>batch_sizes\<close> is non-increasing, starts with the batch size, and counts at each
  timestep the sequences that are longer than it.
\<close>

theorem pack_collate_fn_sorted:
  fixes batch :: "('f \<times> int list \<times> string) list"
  assumes "batch \<noteq> []" and "\<forall>ex\<in>set batch. fst (snd ex) \<noteq> []"
  shows "\<exists>idx data batch_sizes.
     pack_collate_fn batch =
       Inr (map (\<lambda>i. fst (batch ! i)) idx, (data, batch_sizes),
            map (\<lambda>i. snd (snd (batch ! i))) idx,
            map (\<lambda>i. [real (length (fst (snd (batch ! i))))]) idx)
     \<and> mset idx = mset [0..<length batch]
     \<and> sorted_wrt (\<lambda>i j. length (fst (snd (batch ! j))) < length (fst (snd (batch ! i)))
            \<or> (length (fst (snd (batch ! i))) = length (fst (snd (batch ! j))) \<and> i < j)) idx
     \<and> sorted_wrt (\<ge>) batch_sizes \<and> batch_sizes \<noteq> [] \<and> hd batch_sizes = length batch
     \<and> batch_sizes = map (\<lambda>t. length (filter (\<lambda>ex. t < length (fst (snd ex))) batch))
                          [0..<foldr max (map (\<lambda>ex. length (fst (snd ex))) batch) 0]
     \<and> length data = sum_list batch_sizes"
  using assms by (rule pack_collate_fn_Inr)

theorem pack_collate_fn_sorted_witness:
  "example_batch \<noteq> [] \<and> list_all (\<lambda>ex. fst (snd ex) \<noteq> []) example_batch \<and>
   (\<exists>idx data batch_sizes.
      pack_collate_fn example_batch =
        Inr (map (\<lambda>i. fst (example_batch ! i)) idx, (data, batch_sizes),
             map (\<lambda>i. snd (snd (example_batch ! i))) idx,
             map (\<lambda>i. [real (length (fst (snd (example_batch ! i))))]) idx)
      \<and> mset idx = mset [0..<length example_batch]
      \<and> sorted_wrt (\<ge>) batch_sizes \<and> batch_sizes \<noteq> []
      \<and> hd batch_sizes = length example_batch)"
proof -
  have h1: "example_batch \<noteq> []"
    by (simp add: example_batch_def)
  have h2: "\<forall>ex\<in>set example_batch. fst (snd ex) \<noteq> []"
    by (simp add: example_batch_def)
  from pack_collate_fn_sorted [OF h1 h2] h1 h2 show ?thesis
    unfolding list_all_iff by blast
qed

text \<open>
  C1 as stated fails on a non-empty batch that holds an empty token sequence: the
  packing refuses it, so nothing is returned.
\<close>

theorem pack_collate_fn_empty_caption_counterexample:
  "pack_collate_fn empty_caption_batch = Inl RuntimeError"
  by (simp add: empty_caption_batch_def pack_collate_fn_def sorted_reverse_def pack_sequence_def)

section \<open>The loop of the training step\<close>

lemma for_range_snoc:
  "for_range body (xs @ [x]) st =
     (case for_range body xs st of Inl e \<Rightarrow> Inl e | Inr st' \<Rightarrow> body x st')"
  by (induction xs arbitrary: st) (auto split: sum.splits)

lemma zip_conv_nth:
  "length xs = length ys \<Longrightarrow> zip xs ys = map (\<lambda>j. (xs ! j, ys ! j)) [0..<length ys]"
  by (rule nth_equalityI) auto

lemma exp_le_sum_list_exp:
  assumes "t < length row"
  shows "exp (row ! t) \<le> sum_list (map exp (row::real list))"
proof -
  have "exp (row ! t) \<in> set (map exp row)"
    using assms by (metis length_map nth_map nth_mem)
  moreover have "\<forall>x\<in>set (map exp row). 0 \<le> x" by auto
  ultimately show ?thesis
    using member_le_sum_list by blast
qed

lemma cross_entropy_row_nonneg:
  assumes "t < length row"
  shows "0 \<le> cross_entropy_row row t"
proof -
  have "ln (exp (row ! t)) \<le> ln (sum_list (map exp row))"
    using exp_le_sum_list_exp [OF assms] by (subst ln_le_cancel_iff) (auto intro: less_le_trans [OF exp_gt_zero])
  then show ?thesis by (simp add: cross_entropy_row_def)
qed

lemma word_criterion_Inr:
  assumes "word_criterion null input target = Inr l"
  shows "length input = length target"
    and "l = cross_entropy_sum null input target"
    and "0 \<le> l"
proof -
  from assms show len: "length input = length target"
    by (auto simp: word_criterion_def split: if_splits)
  from assms have rng: "\<forall>(row, t)\<in>set (zip input target). t = null \<or> (0 \<le> t \<and> t < int (length row))"
    by (auto simp: word_criterion_def list_ex_iff split: if_splits)
  from assms len have l: "l = sum_list (map (\<lambda>(row, t). if t = null then 0
                                          else cross_entropy_row row (nat t)) (zip input target))"
    by (auto simp: word_criterion_def split: if_splits)
  then show "l = cross_entropy_sum null input target"
    by (simp add: zip_conv_nth [OF len] cross_entropy_sum_def comp_def)
  have "0 \<le> (case p of (row, t) \<Rightarrow> if t = null then 0 else cross_entropy_row row (nat t))"
    if "p \<in> set (zip input target)" for p
    using rng that by (cases p) (fastforce intro!: cross_entropy_row_nonneg)
  then show "0 \<le> l"
    unfolding l by (intro sum_list_nonneg) auto
qed

lemma count_equal_correct_count:
  assumes "length logits = length target"
  shows "count_equal (map argmax logits) target = correct_count logits target"
proof -
  have "zip (map argmax logits) target = map (\<lambda>j. (argmax (logits ! j), target ! j)) [0..<length target]"
    using assms by (simp add: zip_conv_nth cong: map_cong)
  then show ?thesis
    by (simp add: count_equal_def correct_count_def filter_map comp_def)
qed

lemma correct_count_le: "correct_count logits target \<le> length target"
  unfolding correct_count_def by (metis length_filter_le length_upt diff_zero)

lemma train_iter_Inr:
  assumes it: "train_iter M w null F P cap bs i st = Inr st'"
    and i: "Suc i < length bs"
    and start: "ls_start_idx st = sum_list (take i bs)"
    and hc: "(ls_hidden_states st, ls_cell_states st) = state_after M w F P cap bs init i"
  shows "ls_start_idx st' = sum_list (take (Suc i) bs)"
    and "(ls_hidden_states st', ls_cell_states st') = state_after M w F P cap bs init (Suc i)"
    and "ls_loss st' = ls_loss st
           + cross_entropy_sum null (take (bs ! Suc i) (fst (step_output M w F P cap bs init i)))
               (step_tokens cap bs (Suc i))"
    and "0 \<le> cross_entropy_sum null (take (bs ! Suc i) (fst (step_output M w F P cap bs init i)))
               (step_tokens cap bs (Suc i))"
    and "ls_acc st' = ls_acc st
           + real (correct_count (take (bs ! Suc i) (fst (step_output M w F P cap bs init i)))
               (step_tokens cap bs (Suc i)))"
    and "ls_alphas st' = ls_alphas st @ [fst (snd (step_output M w F P cap bs init i))]"
    and "length (take (bs ! Suc i) (fst (step_output M w F P cap bs init i)))
           = length (step_tokens cap bs (Suc i))"
proof -
  define out where "out = step_output M w F P cap bs init i"
  have sum_Suc: "sum_list (take (Suc i) bs) = sum_list (take i bs) + bs ! i"
    using i by (simp add: take_Suc_conv_app_nth)
  have curr: "slice cap (ls_start_idx st) (ls_start_idx st + bs ! i) = step_tokens cap bs i"
    by (simp add: slice_def step_tokens_def start)
  have tgt: "slice cap (ls_start_idx st + bs ! i) (ls_start_idx st + bs ! i + bs ! Suc i)
             = step_tokens cap bs (Suc i)"
    by (simp add: slice_def step_tokens_def start sum_Suc)
  have fw: "forward M w (take (bs ! i) F) (take (bs ! i) P) (step_tokens cap bs i)
              (map (take (bs ! i)) (ls_hidden_states st))
              (map (take (bs ! i)) (ls_cell_states st)) = out"
    unfolding out_def step_output_def hc [symmetric] by simp
  obtain logits alpha h c where out: "out = (logits, alpha, (h, c))"
    by (metis prod.exhaust)
  from it obtain l predicted where
    wc: "word_criterion null (take (bs ! Suc i) logits) (step_tokens cap bs (Suc i)) = Inr l"
    and am: "argmax_rows logits = Inr predicted"
    and st': "st' = \<lparr>ls_start_idx = ls_start_idx st + bs ! i, ls_hidden_states = h,
                     ls_cell_states = c, ls_loss = ls_loss st + l,
                     ls_acc = ls_acc st
                       + real (count_equal (take (bs ! Suc i) predicted) (step_tokens cap bs (Suc i))),
                     ls_alphas = ls_alphas st @ [alpha]\<rparr>"
    unfolding train_iter_def Let_def curr tgt fw out
    by (auto simp: tgt split: sum.splits)
  note w = word_criterion_Inr [OF wc]
  have pred: "predicted = map argmax logits"
    using am by (auto simp: argmax_rows_def split: if_splits)
  show "ls_start_idx st' = sum_list (take (Suc i) bs)"
    by (simp add: st' sum_Suc start)
  show "(ls_hidden_states st', ls_cell_states st') = state_after M w F P cap bs init (Suc i)"
    using fw out by (simp add: st' hc [symmetric])
  show "ls_loss st' = ls_loss st
           + cross_entropy_sum null (take (bs ! Suc i) (fst (step_output M w F P cap bs init i)))
               (step_tokens cap bs (Suc i))"
    using w(2) by (simp add: st' out_def [symmetric] out)
  show "0 \<le> cross_entropy_sum null (take (bs ! Suc i) (fst (step_output M w F P cap bs init i)))
               (step_tokens cap bs (Suc i))"
    using w(2,3) by (simp add: out_def [symmetric] out)
  show "ls_acc st' = ls_acc st
           + real (correct_count (take (bs ! Suc i) (fst (step_output M w F P cap bs init i)))
               (step_tokens cap bs (Suc i)))"
    using count_equal_correct_count [OF w(1)]
    by (simp add: st' out_def [symmetric] out pred take_map)
  show "ls_alphas st' = ls_alphas st @ [fst (snd (step_output M w F P cap bs init i))]"
    by (simp add: st' out_def [symmetric] out)
  show "length (take (bs ! Suc i) (fst (step_output M w F P cap bs init i)))
           = length (step_tokens cap bs (Suc i))"
    using w(1) by (simp add: out_def [symmetric] out)
qed

lemma for_range_upt_Suc:
  "for_range body [0..<Suc n] st =
     (case for_range body [0..<n] st of Inl e \<Rightarrow> Inl e | Inr st' \<Rightarrow> body n st')"
  by (simp add: for_range_snoc)

lemma train_loop_prefix:
  assumes "for_range (train_iter M w null F P cap bs) [0..<n]
             \<lparr>ls_start_idx = 0, ls_hidden_states = fst init, ls_cell_states = snd init,
              ls_loss = 0, ls_acc = 0, ls_alphas = []\<rparr> = Inr st"
    and "n \<le> length bs - 1"
  shows "ls_start_idx st = sum_list (take n bs)
       \<and> (ls_hidden_states st, ls_cell_states st) = state_after M w F P cap bs init n
       \<and> ls_loss st = (\<Sum>t<n. step_loss M w null F P cap bs init t)
       \<and> (\<forall>t<n. 0 \<le> step_loss M w null F P cap bs init t)
       \<and> ls_acc st = real (\<Sum>t<n. step_correct M w F P cap bs init t)
       \<and> (\<forall>t<n. step_correct M w F P cap bs init t \<le> length (step_tokens cap bs (Suc t)))
       \<and> ls_alphas st = map (step_alpha M w F P cap bs init) [0..<n]"
  using assms
proof (induction n arbitrary: st)
  case 0
  then show ?case by auto
next
  case (Suc n)
  from Suc.prems(1) obtain st0 where
    pre: "for_range (train_iter M w null F P cap bs) [0..<n]
             \<lparr>ls_start_idx = 0, ls_hidden_states = fst init, ls_cell_states = snd init,
              ls_loss = 0, ls_acc = 0, ls_alphas = []\<rparr> = Inr st0"
    and it: "train_iter M w null F P cap bs n st0 = Inr st"
    unfolding for_range_upt_Suc by (auto split: sum.splits)
  from Suc.prems(2) have n: "Suc n < length bs" "n \<le> length bs - 1" by auto
  note IH = Suc.IH [OF pre n(2)]
  from IH have start: "ls_start_idx st0 = sum_list (take n bs)"
    and hc: "(ls_hidden_states st0, ls_cell_states st0) = state_after M w F P cap bs init n"
    by auto
  note step = train_iter_Inr [OF it n(1) start hc]
  have cc: "step_correct M w F P cap bs init n \<le> length (step_tokens cap bs (Suc n))"
    by (simp add: step_correct_def correct_count_le)
  show ?case
    using IH step(1,2,3,4,5,6) cc
    by (simp add: step_loss_def step_correct_def step_alpha_def less_Suc_eq)
qed

section \<open>The attention regulariser\<close>

lemma concat_replicate_single: "concat (replicate n [x]) = replicate n x"
  by (induction n) auto

lemma column_target:
  "repeat_cols (div_scalar (map (\<lambda>n. [n]) lens) L) L = map (\<lambda>n. replicate L (n / real L)) lens"
  by (simp add: repeat_cols_def div_scalar_def comp_def concat_replicate_single)

lemma pad_sequence_Inr:
  assumes "pad_sequence alphas = Inr padded"
  shows "alphas \<noteq> []"
    and "\<forall>a\<in>set alphas. \<forall>row\<in>set a. length row = ncols (hd alphas)"
    and "padded = map (\<lambda>j. map (\<lambda>a. if j < length a then a ! j else replicate (ncols (hd alphas)) 0) alphas)
                      [0..<foldr max (map length alphas) 0]"
  using assms
  by (auto simp: pad_sequence_def Let_def list_ex_iff split: if_splits)

lemma sum_dim1_padded:
  assumes ne: "alphas \<noteq> []"
    and wd: "\<forall>a\<in>set alphas. \<forall>row\<in>set a. length row = W"
  shows "sum_dim1 (map (\<lambda>j. map (\<lambda>a. if j < length a then a ! j else replicate W 0) alphas) [0..<mx])
         = map (\<lambda>j. map (\<lambda>l. attention_sum alphas j l) [0..<W]) [0..<mx]"
proof -
  have len: "length (if j < length a then a ! j else replicate W 0) = W" if "a \<in> set alphas" for a j
    using wd that by auto
  have nc: "ncols (map (\<lambda>a. if j < length a then a ! j else replicate W 0) alphas) = W" for j
  proof -
    from ne obtain a0 rest where a: "alphas = a0 # rest" by (cases alphas) auto
    then show ?thesis using len [of a0 j] by (simp add: ncols_def)
  qed
  have el: "(if j < length a then a ! j else replicate W 0) ! l = (if j < length a then a ! j ! l else 0)"
    if "l < W" for a j l
    using that by simp
  have "map (\<lambda>l. sum_list (map (\<lambda>row. row ! l) (map (\<lambda>a. if j < length a then a ! j else replicate W 0) alphas))) [0..<W]
        = map (\<lambda>l. attention_sum alphas j l) [0..<W]" for j
    by (rule map_cong) (simp_all add: attention_sum_def comp_def el)
  then show ?thesis
    by (simp add: sum_dim1_def nc comp_def)
qed

lemma alpha_criterion_Inr:
  assumes "alpha_criterion input target = Inr mse"
  shows "map length input = map length target"
    and "mse = sum_list (map (\<lambda>(r, r'). sum_list (map (\<lambda>(x, y). (x - y)\<^sup>2) (zip r r'))) (zip input target))"
  using assms by (auto simp: alpha_criterion_def split: if_splits)

lemma alphas_reg_Inr:
  assumes "alphas_reg coeff L alphas (map (\<lambda>n. [n]) lens) = Inr reg"
  shows "reg = coeff * coverage_penalty L alphas lens"
proof -
  define W where "W = ncols (hd alphas)"
  define mx where "mx = foldr max (map length alphas) 0"
  define att where "att = map (\<lambda>j. map (\<lambda>l. attention_sum alphas j l) [0..<W]) [0..<mx]"
  define tgt where "tgt = map (\<lambda>n. replicate L (n / real L)) lens"
  from assms obtain padded mse where
    pad: "pad_sequence alphas = Inr padded"
    and mse: "alpha_criterion (sum_dim1 padded) tgt = Inr mse"
    and reg: "reg = coeff * mse"
    by (auto simp: alphas_reg_def column_target tgt_def split: sum.splits)
  note p = pad_sequence_Inr [OF pad]
  have sd: "sum_dim1 padded = att"
    unfolding p(3) att_def W_def mx_def
    by (rule sum_dim1_padded) (use p in auto)
  note c = alpha_criterion_Inr [OF mse [unfolded sd]]
  from c(1) have shape: "map (\<lambda>j. W) [0..<mx] = map (\<lambda>n. L) lens"
    by (simp add: att_def tgt_def comp_def)
  then have mx_len: "mx = length lens"
    by (metis length_map length_upt diff_zero)
  have WL: "W = L" if "0 < mx"
  proof -
    from that shape mx_len have "map (\<lambda>j. W) [0..<mx] ! 0 = map (\<lambda>n. L) lens ! 0" by simp
    with that mx_len show ?thesis by simp
  qed
  have zp: "zip att tgt = map (\<lambda>j. (att ! j, tgt ! j)) [0..<length tgt]"
    by (rule zip_conv_nth) (simp add: att_def tgt_def mx_len)
  have row: "sum_list (map (\<lambda>(x, y). (x - y)\<^sup>2) (zip (att ! j) (tgt ! j)))
             = sum_list (map (\<lambda>l. (attention_sum alphas j l - lens ! j / real L)\<^sup>2) [0..<L])"
    if "j < length lens" for j
  proof -
    from that mx_len have "0 < mx" by auto
    then have W: "W = L" by (rule WL)
    have a: "att ! j = map (\<lambda>l. attention_sum alphas j l) [0..<L]"
      using that mx_len W by (simp add: att_def)
    have t: "tgt ! j = replicate L (lens ! j / real L)"
      using that by (simp add: tgt_def)
    have "zip (att ! j) (tgt ! j) = map (\<lambda>l. (attention_sum alphas j l, lens ! j / real L)) [0..<L]"
      unfolding a t by (rule nth_equalityI) auto
    then show ?thesis by (simp add: comp_def)
  qed
  have "mse = sum_list (map (\<lambda>j. sum_list (map (\<lambda>(x, y). (x - y)\<^sup>2) (zip (att ! j) (tgt ! j)))) [0..<length lens])"
    unfolding c(2) zp by (simp add: comp_def tgt_def)
  also have "\<dots> = coverage_penalty L alphas lens"
    unfolding coverage_penalty_def by (rule arg_cong [where f = sum_list], rule map_cong) (simp_all add: row)
  finally show ?thesis by (simp add: reg)
qed

section \<open>What the training step returns\<close>

lemma priv_train_Return:
  assumes "priv_train M s (features, (cap_vecs, bs), captions, seq_lens) = Return (loss, acc) s'"
  shows "\<exists>st. train_loop M (model s) (null_id s) (batch_norm M (model s) features)
                 (project_features M (model s) (batch_norm M (model s) features)) cap_vecs bs
                 (get_initial_lstm M (model s) (batch_norm M (model s) features)) = Inr st
           \<and> bs \<noteq> [] \<and> 0 < bs ! 0 \<and> sum_list (drop 1 bs) \<noteq> 0
           \<and> acc = ls_acc st / real (sum_list (drop 1 bs))
           \<and> (if 0 < alpha_c s
               then \<exists>reg. alphas_reg (alpha_c s) (model_L M) (ls_alphas st) seq_lens = Inr reg
                          \<and> loss = (ls_loss st + reg) / real (bs ! 0)
               else loss = ls_loss st / real (bs ! 0))"
  using assms
  by (auto simp: priv_train_def Let_def split: option.splits sum.splits if_splits prod.splits)

lemma sum_drop1: "(\<Sum>t<length bs - 1. bs ! Suc t) = sum_list (drop 1 (bs::nat list))"
proof -
  have "sum_list (drop 1 bs) = (\<Sum>i = 0..<length (drop 1 bs). drop 1 bs ! i)"
    by (rule sum_list_sum_nth)
  also have "\<dots> = (\<Sum>t<length bs - 1. bs ! Suc t)"
    by (rule sum.cong) auto
  finally show ?thesis by simp
qed

lemma length_step_tokens: "length (step_tokens cap bs t) \<le> bs ! t"
  by (simp add: step_tokens_def)

lemma train_loop_closed:
  assumes "train_loop M w null F P cap bs init = Inr st"
  shows "ls_loss st = (\<Sum>t<length bs - 1. step_loss M w null F P cap bs init t)"
    and "\<forall>t<length bs - 1. 0 \<le> step_loss M w null F P cap bs init t"
    and "ls_acc st = real (\<Sum>t<length bs - 1. step_correct M w F P cap bs init t)"
    and "\<forall>t<length bs - 1. step_correct M w F P cap bs init t \<le> bs ! Suc t"
    and "ls_alphas st = map (step_alpha M w F P cap bs init) [0..<length bs - 1]"
proof -
  note p = train_loop_prefix [OF assms [unfolded train_loop_def] order_refl]
  from p show "ls_loss st = (\<Sum>t<length bs - 1. step_loss M w null F P cap bs init t)"
    and "\<forall>t<length bs - 1. 0 \<le> step_loss M w null F P cap bs init t"
    and "ls_acc st = real (\<Sum>t<length bs - 1. step_correct M w F P cap bs init t)"
    and "ls_alphas st = map (step_alpha M w F P cap bs init) [0..<length bs - 1]"
    by blast+
  from p have "\<forall>t<length bs - 1. step_correct M w F P cap bs init t \<le> length (step_tokens cap bs (Suc t))"
    by blast
  then show "\<forall>t<length bs - 1. step_correct M w F P cap bs init t \<le> bs ! Suc t"
    using length_step_tokens order_trans by blast
qed

section \<open>Timesteps\<close>





section \<open>The stand-in model, evaluated\<close>

lemmas toy_eval =
  priv_train_def toy_solver_def toy_model_def train_loop_def train_iter_def upt_rec slice_def
  word_criterion_def argmax_rows_def argmax_def count_equal_def cross_entropy_row_def
  alphas_reg_def pad_sequence_def ncols_def sum_dim1_def alpha_criterion_def repeat_cols_def
  div_scalar_def power2_eq_square eval_nat_numeral


lemma toy_train:
  "priv_train toy_model toy_solver
     ([10, 20], ([1, 1, 3, 3, 4, 2, 2], [2, 2, 2, 1]), [''cat sat'', ''cat''], map (\<lambda>n. [n]) [4, 3])
   = Return ((5 * ln (4 + exp 1) - 2 + 1 / 2) / 2, 2 / 5)
       (toy_solver\<lparr>model := 1, optimizer := Some 1\<rparr>)"
  by (simp add: toy_eval)

lemma toy_train_no_alpha:
  "priv_train toy_model (toy_solver\<lparr>alpha_c := 0\<rparr>)
     ([10, 20], ([1, 1, 3, 3, 4, 2, 2], [2, 2, 2, 1]), [''cat sat'', ''cat''], [[4], [3]])
   = Return ((5 * ln (4 + exp 1) - 2) / 2, 2 / 5)
       (toy_solver\<lparr>alpha_c := 0, model := 1, optimizer := Some 1\<rparr>)"
  by (simp add: toy_eval)

lemma toy_facts:
  "model toy_solver = 0" "null_id toy_solver = 0" "alpha_c toy_solver = 1"
  "model (toy_solver\<lparr>alpha_c := 0\<rparr>) = 0" "null_id (toy_solver\<lparr>alpha_c := 0\<rparr>) = 0"
  "batch_norm toy_model w features = features"
  "project_features toy_model w features = features"
  "get_initial_lstm toy_model w [10, 20] = ([[0, 0]], [[0, 0]])"
  "model_L toy_model = 2"
  "length [2, 2, 2, 1::nat] - 1 = 3" "sum_list (drop 1 [2, 2, 2, 1::nat]) = 5"
  "[2, 2, 2, 1::nat] ! 0 = 2"
  by (simp_all add: toy_solver_def toy_model_def)

section \<open>The training step returns on assembled batches\<close>

text \<open>
  The results on \<open>_train\<close> below are stated for the batches on which it returns. This
  section shows that these are all the batches the assembler produces from examples
  with at least two tokens each, provided the model returns one score row of the
  vocabulary's width and one attention row of \<open>L\<close> weights per example
  (\<open>well_shaped\<close>), every token is the padding token or a word index, and an optimizer
  is set.
\<close>

lemma sum_list_take_le: "sum_list (take k xs) \<le> sum_list (xs::nat list)"
proof -
  have "sum_list xs = sum_list (take k xs) + sum_list (drop k xs)"
    by (metis append_take_drop_id sum_list_append)
  then show ?thesis by simp
qed

lemma length_step_tokens_eq:
  assumes "length cap = sum_list bs" "t < length bs"
  shows "length (step_tokens cap bs t) = bs ! t"
proof -
  have "sum_list (take (Suc t) bs) = sum_list (take t bs) + bs ! t"
    using assms(2) by (simp add: take_Suc_conv_app_nth)
  moreover have "sum_list (take (Suc t) bs) \<le> length cap"
    unfolding assms(1) by (rule sum_list_take_le)
  ultimately show ?thesis
    by (simp add: step_tokens_def)
qed

lemma set_step_tokens: "set (step_tokens cap bs t) \<subseteq> set cap"
  unfolding step_tokens_def by (meson set_drop_subset set_take_subset subset_trans)

lemma well_shapedD:
  assumes "well_shaped M V"
  shows "length (fst (forward M w F P toks h c)) = length toks"
    and "row \<in> set (fst (forward M w F P toks h c)) \<Longrightarrow> length row = V"
    and "length (fst (snd (forward M w F P toks h c))) = length toks"
    and "row' \<in> set (fst (snd (forward M w F P toks h c))) \<Longrightarrow> length row' = model_L M"
  using assms unfolding well_shaped_def list_all_iff by blast+

lemma word_criterion_returns:
  assumes "length input = length target"
    and "\<forall>row\<in>set input. length row = V"
    and "\<forall>t\<in>set target. t = null \<or> (0 \<le> t \<and> t < int V)"
  shows "\<exists>l. word_criterion null input target = Inr l"
proof -
  have "\<not> list_ex (\<lambda>(row, t). t \<noteq> null \<and> (t < 0 \<or> int (length row) \<le> t)) (zip input target)"
  proof
    assume "list_ex (\<lambda>(row, t). t \<noteq> null \<and> (t < 0 \<or> int (length row) \<le> t)) (zip input target)"
    then obtain row t where m: "(row, t) \<in> set (zip input target)"
      and bad: "t \<noteq> null" "t < 0 \<or> int (length row) \<le> t"
      unfolding list_ex_iff by auto
    from m have "row \<in> set input" "t \<in> set target"
      by (auto dest: set_zip_leftD set_zip_rightD)
    with assms(2,3) have "length row = V" "t = null \<or> (0 \<le> t \<and> t < int V)" by auto
    with bad show False by auto
  qed
  with assms(1) show ?thesis
    by (simp add: word_criterion_def)
qed

lemma train_iter_returns:
  assumes ws: "well_shaped M V" and V: "0 < V"
    and i: "Suc i < length bs"
    and len: "length cap = sum_list bs"
    and sorted: "sorted_wrt (\<ge>) bs"
    and toks: "\<forall>t\<in>set cap. t = null \<or> (0 \<le> t \<and> t < int V)"
    and start: "ls_start_idx st = sum_list (take i bs)"
  shows "\<exists>st'. train_iter M w null F P cap bs i st = Inr st'"
proof -
  define out where "out = forward M w (take (bs ! i) F) (take (bs ! i) P) (step_tokens cap bs i)
              (map (take (bs ! i)) (ls_hidden_states st))
              (map (take (bs ! i)) (ls_cell_states st))"
  obtain logits alpha h c where o: "out = (logits, alpha, (h, c))"
    by (metis prod.exhaust)
  have sum_Suc: "sum_list (take (Suc i) bs) = sum_list (take i bs) + bs ! i"
    using i by (simp add: take_Suc_conv_app_nth)
  have curr: "slice cap (ls_start_idx st) (ls_start_idx st + bs ! i) = step_tokens cap bs i"
    by (simp add: slice_def step_tokens_def start)
  have tgt: "slice cap (ls_start_idx st + bs ! i) (ls_start_idx st + bs ! i + bs ! Suc i)
             = step_tokens cap bs (Suc i)"
    by (simp add: slice_def step_tokens_def start sum_Suc)
  have ll: "length logits = bs ! i"
    using well_shapedD(1) [OF ws, of w "take (bs ! i) F" "take (bs ! i) P" "step_tokens cap bs i"
        "map (take (bs ! i)) (ls_hidden_states st)" "map (take (bs ! i)) (ls_cell_states st)"]
      length_step_tokens_eq [OF len, of i] i
    by (simp add: out_def [symmetric] o)
  have rows: "\<forall>row\<in>set logits. length row = V"
    using well_shapedD(2) [OF ws, of _ w "take (bs ! i) F" "take (bs ! i) P" "step_tokens cap bs i"
        "map (take (bs ! i)) (ls_hidden_states st)" "map (take (bs ! i)) (ls_cell_states st)"]
    by (simp add: out_def [symmetric] o)
  have le: "bs ! Suc i \<le> bs ! i"
    using sorted i by (simp add: sorted_wrt_iff_nth_less)
  have lt: "length (take (bs ! Suc i) logits) = length (step_tokens cap bs (Suc i))"
    using ll le length_step_tokens_eq [OF len i] by simp
  have "\<forall>row\<in>set (take (bs ! Suc i) logits). length row = V"
    using rows by (meson in_set_takeD)
  moreover have "\<forall>t\<in>set (step_tokens cap bs (Suc i)). t = null \<or> (0 \<le> t \<and> t < int V)"
    using toks set_step_tokens by blast
  ultimately obtain l where
    wc: "word_criterion null (take (bs ! Suc i) logits) (step_tokens cap bs (Suc i)) = Inr l"
    using word_criterion_returns [OF lt] by blast
  have am: "argmax_rows logits = Inr (map argmax logits)"
    using rows V by (auto simp: argmax_rows_def)
  show ?thesis
    unfolding train_iter_def Let_def curr tgt
    by (simp add: out_def [symmetric] o tgt wc am)
qed

lemma train_loop_returns:
  assumes ws: "well_shaped M V" and V: "0 < V"
    and len: "length cap = sum_list bs"
    and sorted: "sorted_wrt (\<ge>) bs"
    and toks: "\<forall>t\<in>set cap. t = null \<or> (0 \<le> t \<and> t < int V)"
  shows "\<exists>st. train_loop M w null F P cap bs init = Inr st"
proof -
  have "\<exists>st. for_range (train_iter M w null F P cap bs) [0..<n]
             \<lparr>ls_start_idx = 0, ls_hidden_states = fst init, ls_cell_states = snd init,
              ls_loss = 0, ls_acc = 0, ls_alphas = []\<rparr> = Inr st"
    if "n \<le> length bs - 1" for n
    using that
  proof (induction n)
    case 0
    then show ?case by simp
  next
    case (Suc n)
    then obtain st where st: "for_range (train_iter M w null F P cap bs) [0..<n]
             \<lparr>ls_start_idx = 0, ls_hidden_states = fst init, ls_cell_states = snd init,
              ls_loss = 0, ls_acc = 0, ls_alphas = []\<rparr> = Inr st"
      by auto
    from Suc.prems have n: "Suc n < length bs" "n \<le> length bs - 1" by auto
    from train_loop_prefix [OF st n(2)] have "ls_start_idx st = sum_list (take n bs)" by blast
    from train_iter_returns [OF ws V n(1) len sorted toks this]
    obtain st' where "train_iter M w null F P cap bs n st = Inr st'" by blast
    with st show ?case
      by (simp only: for_range_upt_Suc) simp
  qed
  then show ?thesis
    unfolding train_loop_def by blast
qed

lemma foldr_max_sorted:
  assumes "sorted_wrt (\<ge>) xs" "xs \<noteq> []"
  shows "foldr max xs (0::nat) = hd xs"
  using assms by (cases xs) (auto simp: foldr_max_le intro!: antisym max.cobounded1 max.boundedI)

lemma alphas_reg_returns:
  assumes ne: "alphas \<noteq> []"
    and wd: "\<forall>a\<in>set alphas. \<forall>row\<in>set a. length row = L"
    and hd0: "hd alphas \<noteq> []"
    and mx: "foldr max (map length alphas) 0 = length lens"
  shows "\<exists>reg. alphas_reg coeff L alphas (map (\<lambda>n. [n]) lens) = Inr reg"
proof -
  have nc: "ncols (hd alphas) = L"
  proof -
    from hd0 obtain row rest where h: "hd alphas = row # rest" by (cases "hd alphas") auto
    with ne wd have "length row = L"
      by (metis hd_in_set list.set_intros(1))
    with h show ?thesis by (simp add: ncols_def)
  qed
  have pad: "pad_sequence alphas
      = Inr (map (\<lambda>j. map (\<lambda>a. if j < length a then a ! j else replicate L 0) alphas)
                 [0..<length lens])"
    using ne wd by (auto simp: pad_sequence_def Let_def list_ex_iff nc mx)
  have sd: "sum_dim1 (map (\<lambda>j. map (\<lambda>a. if j < length a then a ! j else replicate L 0) alphas)
                 [0..<length lens])
            = map (\<lambda>j. map (\<lambda>l. attention_sum alphas j l) [0..<L]) [0..<length lens]"
    by (rule sum_dim1_padded [OF ne wd])
  have shape: "map length (map (\<lambda>j. map (\<lambda>l. attention_sum alphas j l) [0..<L]) [0..<length lens])
               = map length (map (\<lambda>n. replicate L (n / real L)) lens)"
    by (rule nth_equalityI) simp_all
  have "\<exists>mse. alpha_criterion (map (\<lambda>j. map (\<lambda>l. attention_sum alphas j l) [0..<L]) [0..<length lens])
                (map (\<lambda>n. replicate L (n / real L)) lens) = Inr mse"
    unfolding alpha_criterion_def shape by simp
  then show ?thesis
    unfolding alphas_reg_def pad column_target by (auto simp: sd)
qed

lemma pack_sequence_data:
  assumes "pack_sequence sequences = Inr (data, batch_sizes)"
  shows "set data \<subseteq> \<Union> (set ` set sequences)"
proof -
  from assms have "data = concat (map (\<lambda>t. map (\<lambda>s. s ! t) (filter (\<lambda>s. t < length s) sequences))
                                    [0..<foldr max (map length sequences) 0])"
    by (auto simp: pack_sequence_def Let_def split: if_splits)
  then show ?thesis by auto
qed

lemma pack_collate_fn_data:
  assumes "pack_collate_fn batch = Inr (features, (data, batch_sizes), captions, seq_lens)"
  shows "set data \<subseteq> (\<Union>ex\<in>set batch. set (fst (snd ex)))"
    and "\<exists>lens. seq_lens = map (\<lambda>n. [n]) lens \<and> length lens = length batch"
proof -
  define cap_vecs where "cap_vecs = map (\<lambda>ex. fst (snd ex)) batch"
  define idx where "idx = sorted_reverse (\<lambda>x. length (cap_vecs ! x)) [0..<length cap_vecs]"
  define sorted_cv where "sorted_cv = map (\<lambda>i. cap_vecs ! i) idx"
  from assms have ps: "pack_sequence sorted_cv = Inr (data, batch_sizes)"
    and sl: "seq_lens = map (\<lambda>cap_vec. [real (length cap_vec)]) sorted_cv"
    unfolding pack_collate_fn_def Let_def cap_vecs_def [symmetric] idx_def [symmetric]
      sorted_cv_def [symmetric]
    by (auto split: if_splits sum.splits)
  have "set idx = {0..<length cap_vecs}"
    by (simp add: idx_def set_sorted_reverse)
  then have "set sorted_cv \<subseteq> set cap_vecs"
    by (auto simp: sorted_cv_def)
  with pack_sequence_data [OF ps] show "set data \<subseteq> (\<Union>ex\<in>set batch. set (fst (snd ex)))"
    by (auto simp: cap_vecs_def)
  have "length idx = length batch"
    using mset_eq_length [OF mset_sorted_reverse [of "\<lambda>x. length (cap_vecs ! x)" "[0..<length cap_vecs]"]]
    by (simp add: idx_def cap_vecs_def)
  then have "seq_lens = map (\<lambda>n. [n]) (map (\<lambda>cv. real (length cv)) sorted_cv)
             \<and> length (map (\<lambda>cv. real (length cv)) sorted_cv) = length batch"
    by (simp add: sl sorted_cv_def comp_def)
  then show "\<exists>lens. seq_lens = map (\<lambda>n. [n]) lens \<and> length lens = length batch"
    by blast
qed

lemma step_output_forward:
  "step_output M w F P cap bs init t =
     forward M w (take (bs ! t) F) (take (bs ! t) P) (step_tokens cap bs t)
       (map (take (bs ! t)) (fst (state_after M w F P cap bs init t)))
       (map (take (bs ! t)) (snd (state_after M w F P cap bs init t)))"
  by (simp add: step_output_def split_beta)

lemma step_alpha_shape:
  assumes ws: "well_shaped M V" and len: "length cap = sum_list bs" and t: "t < length bs"
  shows "length (step_alpha M w F P cap bs init t) = bs ! t"
    and "\<forall>row\<in>set (step_alpha M w F P cap bs init t). length row = model_L M"
  unfolding step_alpha_def step_output_forward
  using well_shapedD(3,4) [OF ws] length_step_tokens_eq [OF len t] by auto

lemma map_nth_upt_take: "n \<le> length xs \<Longrightarrow> map (\<lambda>t. xs ! t) [0..<n] = take n xs"
  by (rule nth_equalityI) simp_all

lemma priv_train_after_loop:
  assumes opt: "optimizer s = Some ost"
    and loop: "train_loop M (model s) (null_id s) (batch_norm M (model s) features)
                 (project_features M (model s) (batch_norm M (model s) features)) cap bs
                 (get_initial_lstm M (model s) (batch_norm M (model s) features)) = Inr st"
    and reg: "0 < alpha_c s \<longrightarrow> (\<exists>reg. alphas_reg (alpha_c s) (model_L M) (ls_alphas st) seq_lens = Inr reg)"
    and bs: "bs \<noteq> []" "bs ! 0 \<noteq> 0" "ls_alphas st \<noteq> []" "sum_list (drop 1 bs) \<noteq> 0"
  shows "\<exists>loss acc s'. priv_train M s (features, (cap, bs), captions, seq_lens) = Return (loss, acc) s'"
proof (cases "0 < alpha_c s")
  case True
  with reg obtain r where "alphas_reg (alpha_c s) (model_L M) (ls_alphas st) seq_lens = Inr r" by blast
  with True opt loop bs show ?thesis
    by (simp add: priv_train_def Let_def split_beta)
next
  case False
  with opt loop bs show ?thesis
    by (simp add: priv_train_def Let_def split_beta)
qed

lemma priv_train_returns:
  fixes raw :: "('f \<times> int list \<times> string) list"
  assumes ne: "raw \<noteq> []" and two: "\<forall>ex\<in>set raw. 2 \<le> length (fst (snd ex))"
    and toks: "\<forall>ex\<in>set raw. \<forall>tok\<in>set (fst (snd ex)). tok = null_id s \<or> (0 \<le> tok \<and> tok < int V)"
    and ws: "well_shaped M V" and V: "0 < V"
    and opt: "optimizer s \<noteq> None"
  shows "\<exists>batch loss acc s'. pack_collate_fn raw = Inr batch
           \<and> priv_train M s batch = Return (loss, acc) s'"
proof -
  from two have nonempty: "\<forall>ex\<in>set raw. fst (snd ex) \<noteq> []" by auto
  from pack_collate_fn_Inr [OF ne nonempty] obtain idx cap bs where
    pc: "pack_collate_fn raw =
       Inr (map (\<lambda>i. fst (raw ! i)) idx, (cap, bs),
            map (\<lambda>i. snd (snd (raw ! i))) idx,
            map (\<lambda>i. [real (length (fst (snd (raw ! i))))]) idx)"
    and sorted: "sorted_wrt (\<ge>) bs" and bne: "bs \<noteq> []" and hd: "hd bs = length raw"
    and bsd: "bs = map (\<lambda>t. length (filter (\<lambda>ex. t < length (fst (snd ex))) raw))
                          [0..<foldr max (map (\<lambda>ex. length (fst (snd ex))) raw) 0]"
    and len: "length cap = sum_list bs"
    by blast
  define features where "features = map (\<lambda>i. fst (raw ! i)) idx"
  define captions where "captions = map (\<lambda>i. snd (snd (raw ! i))) idx"
  define seq_lens where "seq_lens = map (\<lambda>i. [real (length (fst (snd (raw ! i))))]) idx"
  note pc' = pc [folded features_def captions_def seq_lens_def]
  from pack_collate_fn_data [OF pc'] obtain lens where
    data: "set cap \<subseteq> (\<Union>ex\<in>set raw. set (fst (snd ex)))"
    and sl: "seq_lens = map (\<lambda>n. [n]) lens" and ll: "length lens = length raw"
    by blast
  from data toks have ctoks: "\<forall>t\<in>set cap. t = null_id s \<or> (0 \<le> t \<and> t < int V)"
    by blast
  have mx2: "2 \<le> foldr max (map (\<lambda>ex. length (fst (snd ex))) raw) 0"
  proof -
    from ne have "length (fst (snd (hd raw))) \<in> set (map (\<lambda>ex. length (fst (snd ex))) raw)"
      by (cases raw) auto
    from foldr_max_ge [OF this] two ne show ?thesis
      by (cases raw) auto
  qed
  have lbs: "2 \<le> length bs"
    using mx2 by (simp add: bsd)
  have b0: "bs ! 0 = length raw"
    using hd bne by (simp add: hd_conv_nth)
  have "filter (\<lambda>ex. 1 < length (fst (snd ex))) raw = raw"
    using two by (intro filter_True) auto
  moreover define mx where "mx = foldr max (map (\<lambda>ex. length (fst (snd ex))) raw) 0"
  moreover have "1 < mx"
    using mx2 by (simp add: mx_def)
  ultimately have b1: "bs ! 1 = length raw"
    unfolding bsd mx_def [symmetric] by simp
  have "drop 1 bs = bs ! 1 # drop 2 bs"
    using lbs by (metis Cons_nth_drop_Suc Suc_1 Suc_le_lessD)
  then have total: "sum_list (drop 1 bs) \<noteq> 0"
    using b1 ne by simp
  from opt obtain ost where o: "optimizer s = Some ost" by auto
  define F where "F = batch_norm M (model s) features"
  define P where "P = project_features M (model s) F"
  define init where "init = get_initial_lstm M (model s) F"
  from train_loop_returns [OF ws V len sorted ctoks] obtain st where
    loop: "train_loop M (model s) (null_id s) F P cap bs init = Inr st" by blast
  from train_loop_closed(5) [OF loop]
  have al: "ls_alphas st = map (step_alpha M (model s) F P cap bs init) [0..<length bs - 1]" .
  have ane: "ls_alphas st \<noteq> []"
    using lbs by (simp add: al)
  have shape: "length (step_alpha M (model s) F P cap bs init t) = bs ! t"
      "\<forall>row\<in>set (step_alpha M (model s) F P cap bs init t). length row = model_L M"
    if "t < length bs" for t
    using step_alpha_shape [OF ws len that] by auto
  have wd: "\<forall>a\<in>set (ls_alphas st). \<forall>row\<in>set a. length row = model_L M"
  proof (intro ballI)
    fix a row assume "a \<in> set (ls_alphas st)" and r: "row \<in> set a"
    then obtain t where "t < length bs - 1" and a: "a = step_alpha M (model s) F P cap bs init t"
      unfolding al by auto
    then have "t < length bs" by simp
    from shape(2) [OF this] r show "length row = model_L M"
      unfolding a by blast
  qed
  have hd_al: "hd (ls_alphas st) = step_alpha M (model s) F P cap bs init 0"
    using lbs by (simp add: al hd_map upt_conv_Cons)
  have hd0: "hd (ls_alphas st) \<noteq> []"
  proof -
    from bne have "0 < length bs" by simp
    from shape(1) [OF this] b0 ne show ?thesis
      unfolding hd_al by auto
  qed
  have "map length (ls_alphas st) = map (\<lambda>t. bs ! t) [0..<length bs - 1]"
  proof -
    have "length (step_alpha M (model s) F P cap bs init t) = bs ! t"
      if "t \<in> set [0..<length bs - 1]" for t
      using that by (intro shape(1)) simp
    then show ?thesis
      unfolding al by simp
  qed
  also have "\<dots> = take (length bs - 1) bs"
    by (rule map_nth_upt_take) simp
  finally have ml: "map length (ls_alphas st) = take (length bs - 1) bs" .
  have "sorted_wrt (\<ge>) (take (length bs - 1) bs)"
    using sorted by (rule sorted_wrt_take)
  moreover have tne: "take (length bs - 1) bs \<noteq> []"
    using lbs by (cases bs) auto
  ultimately have "foldr max (take (length bs - 1) bs) 0 = hd (take (length bs - 1) bs)"
    by (rule foldr_max_sorted)
  also have "\<dots> = length raw"
    using tne hd by (cases bs) auto
  finally have mx: "foldr max (map length (ls_alphas st)) 0 = length lens"
    by (simp add: ml ll)
  from alphas_reg_returns [OF ane wd hd0 mx]
  have reg: "0 < alpha_c s \<longrightarrow>
      (\<exists>reg. alphas_reg (alpha_c s) (model_L M) (ls_alphas st) seq_lens = Inr reg)"
    unfolding sl by blast
  from b0 ne have b0': "bs ! 0 \<noteq> 0" by simp
  from priv_train_after_loop
    [OF o loop [unfolded F_def P_def init_def] reg bne b0' ane total, of captions]
  obtain loss acc s' where
    "priv_train M s (features, (cap, bs), captions, seq_lens) = Return (loss, acc) s'"
    by blast
  with pc' show ?thesis by blast
qed

lemma toy_model_well_shaped: "well_shaped toy_model 5"
  by (simp add: well_shaped_def toy_model_def list_all_iff)

lemma toy_returns:
  "\<exists>batch loss acc s'. pack_collate_fn example_batch = Inr batch
     \<and> priv_train toy_model toy_solver batch = Return (loss, acc) s'"
proof (rule priv_train_returns [where V = 5])
  show "example_batch \<noteq> []"
    by (simp add: example_batch_def)
  show "\<forall>ex\<in>set example_batch. 2 \<le> length (fst (snd ex))"
    by (simp add: example_batch_def)
  show "\<forall>ex\<in>set example_batch. \<forall>tok\<in>set (fst (snd ex)).
          tok = null_id toy_solver \<or> (0 \<le> tok \<and> tok < int 5)"
    by (simp add: example_batch_def)
  show "well_shaped toy_model 5"
    by (rule toy_model_well_shaped)
  show "0 < (5::nat)"
    by simp
  show "optimizer toy_solver \<noteq> None"
    by (simp add: toy_solver_def)
qed

section \<open>Claims about the training step\<close>




text \<open>
  C4. Whenever \<open>_train\<close> returns, the accuracy it returns is the number of positions,
  over all timesteps \<open>t\<close> and the first \<open>batch_sizes ! (t + 1)\<close> rows of scores of each,
  where the first maximal score stands at the target token, divided by the sum of
  \<open>batch_sizes[1:]\<close>; and it lies between 0 and 1. (A batch on which that sum is zero
  makes \<open>_train\<close> raise.)
\<close>

theorem train_accuracy:
  assumes "priv_train M s (features, (cap_vecs, batch_sizes), captions, seq_lens) = Return (loss, acc) s'"
  defines "F \<equiv> batch_norm M (model s) features"
  shows "acc = real (\<Sum>t<length batch_sizes - 1.
                     step_correct M (model s) F (project_features M (model s) F) cap_vecs batch_sizes
                       (get_initial_lstm M (model s) F) t)
               / real (sum_list (drop 1 batch_sizes))
         \<and> 0 \<le> acc \<and> acc \<le> 1"
proof -
  from priv_train_Return [OF assms(1)] obtain st where
    loop: "train_loop M (model s) (null_id s) F (project_features M (model s) F) cap_vecs batch_sizes
             (get_initial_lstm M (model s) F) = Inr st"
    and total: "sum_list (drop 1 batch_sizes) \<noteq> 0"
    and acc: "acc = ls_acc st / real (sum_list (drop 1 batch_sizes))"
    unfolding F_def by blast
  note c = train_loop_closed [OF loop]
  have "(\<Sum>t<length batch_sizes - 1.
            step_correct M (model s) F (project_features M (model s) F) cap_vecs batch_sizes
              (get_initial_lstm M (model s) F) t)
        \<le> (\<Sum>t<length batch_sizes - 1. batch_sizes ! Suc t)"
    using c(4) by (intro sum_mono) auto
  then have le: "(\<Sum>t<length batch_sizes - 1.
            step_correct M (model s) F (project_features M (model s) F) cap_vecs batch_sizes
              (get_initial_lstm M (model s) F) t) \<le> sum_list (drop 1 batch_sizes)"
    by (simp only: sum_drop1)
  define k where "k = (\<Sum>t<length batch_sizes - 1.
            step_correct M (model s) F (project_features M (model s) F) cap_vecs batch_sizes
              (get_initial_lstm M (model s) F) t)"
  define n where "n = sum_list (drop 1 batch_sizes)"
  have eq: "acc = real k / real n"
    unfolding acc c(3) k_def n_def ..
  have "n \<noteq> 0" "k \<le> n"
    using total le unfolding k_def n_def by blast+
  then have "0 < n" "k \<le> n"
    by blast+
  then have "0 \<le> real k / real n" "real k / real n \<le> 1"
    by simp_all
  then show ?thesis
    unfolding eq unfolding k_def n_def by simp
qed

theorem train_accuracy_witness:
  "\<exists>loss acc s'. priv_train toy_model toy_solver example_packed = Return (loss, acc) s'
     \<and> acc = 2 / 5
     \<and> acc = real (\<Sum>t<3. step_correct toy_model 0 [10, 20] [10, 20] [1, 1, 3, 3, 4, 2, 2]
                              [2, 2, 2, 1] ([[0, 0]], [[0, 0]]) t) / real 5
     \<and> 0 \<le> acc \<and> acc \<le> 1"
proof -
  have t: "priv_train toy_model toy_solver
     ([10, 20], ([1, 1, 3, 3, 4, 2, 2], [2, 2, 2, 1]), [''cat sat'', ''cat''], [[4], [3]])
   = Return ((5 * ln (4 + exp 1) - 2 + 1 / 2) / 2, 2 / 5)
       (toy_solver\<lparr>model := 1, optimizer := Some 1\<rparr>)"
    using toy_train by simp
  from train_accuracy [OF t, unfolded toy_facts] t show ?thesis
    unfolding example_packed_def by blast
qed

text \<open>
  C5. Whenever \<open>_train\<close> returns and the coefficient \<open>alpha_c\<close> is 0, the loss it returns is
  the sum over the timesteps \<open>t\<close> of the cross-entropy (summed over the examples, the
  padding id ignored) between the first \<open>batch_sizes ! (t + 1)\<close> rows of scores and the
  packed tokens of timestep \<open>t + 1\<close>, divided by \<open>batch_sizes ! 0\<close>; and it is not negative.
\<close>

theorem train_loss_no_alpha:
  assumes "priv_train M s (features, (cap_vecs, batch_sizes), captions, seq_lens) = Return (loss, acc) s'"
    and "alpha_c s = 0"
  defines "F \<equiv> batch_norm M (model s) features"
  shows "loss = (\<Sum>t<length batch_sizes - 1.
                   step_loss M (model s) (null_id s) F (project_features M (model s) F) cap_vecs
                     batch_sizes (get_initial_lstm M (model s) F) t)
                / real (batch_sizes ! 0)
         \<and> 0 \<le> loss"
proof -
  from priv_train_Return [OF assms(1)] assms(2) obtain st where
    loop: "train_loop M (model s) (null_id s) F (project_features M (model s) F) cap_vecs batch_sizes
             (get_initial_lstm M (model s) F) = Inr st"
    and loss: "loss = ls_loss st / real (batch_sizes ! 0)"
    unfolding F_def by auto
  note c = train_loop_closed [OF loop]
  have "0 \<le> (\<Sum>t<length batch_sizes - 1.
                   step_loss M (model s) (null_id s) F (project_features M (model s) F) cap_vecs
                     batch_sizes (get_initial_lstm M (model s) F) t)"
    using c(2) by (intro sum_nonneg) auto
  then show ?thesis
    using loss c(1) by simp
qed

theorem train_loss_no_alpha_witness:
  "\<exists>loss acc s'. priv_train toy_model (toy_solver\<lparr>alpha_c := 0\<rparr>) example_packed = Return (loss, acc) s'
     \<and> alpha_c (toy_solver\<lparr>alpha_c := 0\<rparr>) = 0
     \<and> loss = (\<Sum>t<3. step_loss toy_model 0 0 [10, 20] [10, 20] [1, 1, 3, 3, 4, 2, 2]
                         [2, 2, 2, 1] ([[0, 0]], [[0, 0]]) t) / real 2
     \<and> 0 \<le> loss"
proof -
  have a: "alpha_c (toy_solver\<lparr>alpha_c := 0\<rparr>) = 0" by simp
  from train_loss_no_alpha [OF toy_train_no_alpha a, unfolded toy_facts] toy_train_no_alpha a
  show ?thesis
    unfolding example_packed_def by blast
qed

text \<open>
  C6. Whenever \<open>_train\<close> returns and \<open>alpha_c > 0\<close>, the loss before the division by
  \<open>batch_sizes ! 0\<close> is the word loss plus \<open>alpha_c\<close> times the sum, over the examples
  and the \<open>L\<close> locations, of the squared difference between the attention summed over the
  timesteps (a timestep without a row for the example counting as zero) and the length of
  the example divided by \<open>L\<close>.
\<close>

theorem train_loss_alpha:
  assumes "priv_train M s (features, (cap_vecs, batch_sizes), captions, map (\<lambda>n. [n]) lens)
             = Return (loss, acc) s'"
    and "0 < alpha_c s"
  defines "F \<equiv> batch_norm M (model s) features"
  shows "loss = ((\<Sum>t<length batch_sizes - 1.
                   step_loss M (model s) (null_id s) F (project_features M (model s) F) cap_vecs
                     batch_sizes (get_initial_lstm M (model s) F) t)
                 + alpha_c s * coverage_penalty (model_L M)
                     (map (step_alpha M (model s) F (project_features M (model s) F) cap_vecs
                             batch_sizes (get_initial_lstm M (model s) F))
                          [0..<length batch_sizes - 1]) lens)
                / real (batch_sizes ! 0)"
proof -
  from priv_train_Return [OF assms(1)] assms(2) obtain st reg where
    loop: "train_loop M (model s) (null_id s) F (project_features M (model s) F) cap_vecs batch_sizes
             (get_initial_lstm M (model s) F) = Inr st"
    and reg: "alphas_reg (alpha_c s) (model_L M) (ls_alphas st) (map (\<lambda>n. [n]) lens) = Inr reg"
    and loss: "loss = (ls_loss st + reg) / real (batch_sizes ! 0)"
    unfolding F_def by auto
  note c = train_loop_closed [OF loop]
  from alphas_reg_Inr [OF reg] loss c(1) c(5) show ?thesis by simp
qed

theorem train_loss_alpha_witness:
  "\<exists>loss acc s'. priv_train toy_model toy_solver example_packed = Return (loss, acc) s'
     \<and> 0 < alpha_c toy_solver
     \<and> loss = ((\<Sum>t<3. step_loss toy_model 0 0 [10, 20] [10, 20] [1, 1, 3, 3, 4, 2, 2]
                         [2, 2, 2, 1] ([[0, 0]], [[0, 0]]) t)
               + 1 * coverage_penalty 2
                   (map (step_alpha toy_model 0 [10, 20] [10, 20] [1, 1, 3, 3, 4, 2, 2]
                           [2, 2, 2, 1] ([[0, 0]], [[0, 0]])) [0..<3]) [4, 3]) / real 2"
proof -
  have a: "0 < alpha_c toy_solver" by (simp add: toy_solver_def)
  have t: "priv_train toy_model toy_solver example_packed
   = Return ((5 * ln (4 + exp 1) - 2 + 1 / 2) / 2, 2 / 5)
       (toy_solver\<lparr>model := 1, optimizer := Some 1\<rparr>)"
    using toy_train by (simp add: example_packed_def)
  from train_loss_alpha [OF toy_train a, unfolded toy_facts] t a
  show ?thesis
    by blast
qed

section \<open>Checkpoint file names\<close>

declare str_nat.simps [simp del]

lemma digit_inj:
  assumes "d < 10" "e < 10" "''0123456789'' ! d = ''0123456789'' ! e"
  shows "d = e"
proof -
  have "distinct ''0123456789''" by simp
  moreover have "d < length ''0123456789''" "e < length ''0123456789''" using assms by simp_all
  ultimately show ?thesis using assms(3) by (simp only: nth_eq_iff_index_eq)
qed

lemma digit_in: "d < 10 \<Longrightarrow> ''0123456789'' ! d \<in> set ''0123456789''"
  by (rule nth_mem) simp

lemma str_nat_digits: "set (str_nat n) \<subseteq> set ''0123456789''"
proof (induction n rule: str_nat.induct)
  case (1 n)
  show ?case
  proof (cases "n < 10")
    case True
    then show ?thesis using digit_in [of n] by (subst str_nat.simps) simp
  next
    case False
    then show ?thesis using 1 digit_in [of "n mod 10"] by (subst str_nat.simps) simp
  qed
qed

lemma str_nat_nonempty: "str_nat n \<noteq> []"
  by (subst str_nat.simps) simp

lemma str_nat_hd: "hd (str_nat n) \<in> set ''0123456789''"
  using str_nat_digits [of n] hd_in_set [OF str_nat_nonempty [of n]] by blast

lemma str_nat_inj: "str_nat n = str_nat m \<Longrightarrow> n = m"
proof (induction n arbitrary: m rule: str_nat.induct)
  case (1 n)
  show ?case
  proof (cases "n < 10")
    case n: True
    show ?thesis
    proof (cases "m < 10")
      case True
      with n 1(2) show ?thesis
        by (simp add: str_nat.simps [of n] str_nat.simps [of m] digit_inj)
    next
      case False
      with n 1(2) show ?thesis
        using str_nat_nonempty [of "m div 10"]
        by (simp add: str_nat.simps [of n] str_nat.simps [of m])
    qed
  next
    case n: False
    show ?thesis
    proof (cases "m < 10")
      case True
      with n 1(2) show ?thesis
        using str_nat_nonempty [of "n div 10"]
        by (simp add: str_nat.simps [of n] str_nat.simps [of m])
    next
      case False
      with n 1(2) have eq: "str_nat (n div 10) = str_nat (m div 10)"
        "''0123456789'' ! (n mod 10) = ''0123456789'' ! (m mod 10)"
        by (simp_all add: str_nat.simps [of n] str_nat.simps [of m])
      from 1(1) [OF n eq(1)] have "n div 10 = m div 10" .
      moreover from eq(2) have "n mod 10 = m mod 10"
        by (intro digit_inj) simp_all
      ultimately show ?thesis by (metis div_mult_mod_eq)
    qed
  qed
qed

lemma str_int_inj: "str_int i = str_int j \<Longrightarrow> i = j"
proof -
  assume eq: "str_int i = str_int j"
  have nodash: "hd (str_nat n) \<noteq> CHR ''-''" for n
    using str_nat_hd [of n] by auto
  show ?thesis
  proof (cases "i < 0"; cases "j < 0")
    assume "i < 0" "j < 0"
    with eq have "nat (- i) = nat (- j)" by (auto simp: str_int_def dest: str_nat_inj)
    with \<open>i < 0\<close> \<open>j < 0\<close> show ?thesis by simp
  next
    assume "i < 0" "\<not> j < 0"
    with eq nodash [of "nat j"] show ?thesis by (auto simp: str_int_def dest: arg_cong [where f = hd])
  next
    assume "\<not> i < 0" "j < 0"
    with eq nodash [of "nat i"] show ?thesis by (auto simp: str_int_def dest: arg_cong [where f = hd])
  next
    assume "\<not> i < 0" "\<not> j < 0"
    with eq have "nat i = nat j" by (auto simp: str_int_def dest: str_nat_inj)
    with \<open>\<not> i < 0\<close> \<open>\<not> j < 0\<close> show ?thesis by simp
  qed
qed

lemma str_int_hd: "str_int i \<noteq> [] \<and> hd (str_int i) \<noteq> CHR ''/''"
  using str_nat_hd [of "nat i"] str_nat_nonempty [of "nat i"]
  by (auto simp: str_int_def)

lemma path_join_relative:
  assumes "b \<noteq> []" "hd b \<noteq> CHR ''/''"
  shows "path_join a b = (if a = [] \<or> last a = CHR ''/'' then a @ b else a @ ''/'' @ b)"
  using assms by (simp add: path_join_def)

lemma checkpoint_file_eq:
  "checkpoint_file s iteration =
     (if checkpoint_dir s = [] \<or> last (checkpoint_dir s) = CHR ''/''
      then checkpoint_dir s @ str_int iteration @ ''.pth''
      else checkpoint_dir s @ ''/'' @ str_int iteration @ ''.pth'')"
  unfolding checkpoint_file_def using str_int_hd [of iteration]
  by (subst path_join_relative) (auto simp: hd_append)

lemma checkpoint_file_inj:
  "checkpoint_file s i = checkpoint_file s j \<longleftrightarrow> i = j"
  by (auto simp: checkpoint_file_eq dest: str_int_inj)

lemma checkpoint_file_not_json:
  "checkpoint_file s i \<noteq> ''./data/val/val.candidate.captions.json''"
proof
  assume "checkpoint_file s i = ''./data/val/val.candidate.captions.json''"
  then have "last (checkpoint_file s i) = last ''./data/val/val.candidate.captions.json''" by simp
  then show False by (simp add: checkpoint_file_eq split: if_splits)
qed

section \<open>What the handlers do to the files\<close>

lemma priv_train_frame:
  assumes "priv_train M s batch = Return out s' \<or> priv_train M s batch = Raise e s'"
  shows "files s' = files s \<and> checkpoint_dir s' = checkpoint_dir s
       \<and> snapshot_steps s' = snapshot_steps s"
  using assms
  unfolding priv_train_def Let_def
  by (auto split: option.splits sum.splits if_splits prod.splits)

lemma test_validation_frame:
  assumes "test M s d True = Return r s'"
  shows "\<exists>caps. s' = s\<lparr>files := (files s)(''./data/val/val.candidate.captions.json'' \<mapsto> Json caps)\<rparr>"
  using assms
  unfolding test_def test_engine_run_def testing_end_epoch_handler_def Let_def
  by (auto split: sum.splits option.splits outcome.splits if_splits)

lemma priv_save_Return:
  assumes "priv_save s epoch iteration loss = Return () s'"
  shows "s' = s\<lparr>files := (files s)(checkpoint_file s iteration \<mapsto>
            Pickle \<lparr>ck_epoch = Some epoch, ck_iteration = Some iteration,
                    ck_model_state_dict = Some (model s),
                    ck_optimizer_state_dict = optimizer s,
                    ck_loss = Some loss\<rparr>)\<rparr>"
  using assms by (auto simp: priv_save_def split: option.splits)

lemma handler_Return:
  assumes "training_end_iter_handler M s iteration epoch (loss, acc) = Return () s'"
  shows "checkpoint_dir s' = checkpoint_dir s \<and> snapshot_steps s' = snapshot_steps s
       \<and> snapshot_steps s \<noteq> 0
       \<and> (\<forall>i. files s' (checkpoint_file s i) =
             (if i = iteration \<and> iteration mod snapshot_steps s = 0
              then Some (Pickle \<lparr>ck_epoch = Some epoch, ck_iteration = Some iteration,
                    ck_model_state_dict = Some (model s),
                    ck_optimizer_state_dict = optimizer s,
                    ck_loss = Some loss\<rparr>)
              else files s (checkpoint_file s i)))"
proof -
  define s1 where "s1 = s\<lparr>writer := writer s @ [(''Loss'', loss, iteration), (''Accuracy'', acc, iteration)]\<rparr>"
  define ev where "ev = (if iteration mod eval_every s1 = 0
                    then (case test M s1 (LoaderArg (val_loader s1)) True of
                            Raise e s2 \<Rightarrow> Raise e s2
                          | Return None s2 \<Rightarrow> Raise AttributeError s2
                          | Return (Some caption_scores) s2 \<Rightarrow>
                              Return () (s2\<lparr>writer := writer s2 @
                                 map (\<lambda>(metric, score). (metric, score, iteration))
                                     caption_scores\<rparr>))
                    else Return () s1)"
  have h: "training_end_iter_handler M s iteration epoch (loss, acc) =
     (if eval_every s1 = 0 then Raise ZeroDivisionError s1
      else case ev of
             Raise e s2 \<Rightarrow> Raise e s2
           | Return _ s2 \<Rightarrow>
               if snapshot_steps s2 = 0 then Raise ZeroDivisionError s2
               else if iteration mod snapshot_steps s2 = 0
                    then priv_save s2 epoch iteration loss
                    else Return () s2)"
    unfolding training_end_iter_handler_def Let_def s1_def ev_def by simp
  from assms h obtain u s2 where ev: "ev = Return u s2"
    and ss: "snapshot_steps s2 \<noteq> 0"
    and sv: "(if iteration mod snapshot_steps s2 = 0 then priv_save s2 epoch iteration loss
              else Return () s2) = Return () s'"
    by (cases ev) (auto split: if_splits)
  have "\<exists>w fs. s2 = s\<lparr>writer := w, files := fs\<rparr>
      \<and> (\<forall>p. p \<noteq> ''./data/val/val.candidate.captions.json'' \<longrightarrow> fs p = files s p)"
  proof (cases "iteration mod eval_every s1 = 0")
    case False
    with ev have "s2 = s1" by (simp add: ev_def)
    then have "s2 = s\<lparr>writer := writer s1, files := files s\<rparr>" by (simp add: s1_def)
    then show ?thesis by blast
  next
    case True
    with ev obtain r s3 w where t: "test M s1 (LoaderArg (val_loader s1)) True = Return r s3"
      and w: "s2 = s3\<lparr>writer := w\<rparr>"
      by (auto simp: ev_def split: outcome.splits option.splits)
    from test_validation_frame [OF t] obtain caps where
      "s3 = s1\<lparr>files := (files s1)(''./data/val/val.candidate.captions.json'' \<mapsto> Json caps)\<rparr>" ..
    with w have "s2 = s\<lparr>writer := w, files := (files s)(''./data/val/val.candidate.captions.json'' \<mapsto> Json caps)\<rparr>"
      by (simp add: s1_def)
    then show ?thesis by (intro exI conjI) auto
  qed
  then obtain w fs where s2: "s2 = s\<lparr>writer := w, files := fs\<rparr>"
    and fs: "\<forall>p. p \<noteq> ''./data/val/val.candidate.captions.json'' \<longrightarrow> fs p = files s p"
    by blast
  have cf: "checkpoint_file s2 i = checkpoint_file s i" for i
    by (simp add: s2 checkpoint_file_def)
  have fsc: "fs (checkpoint_file s i) = files s (checkpoint_file s i)" for i
    using fs checkpoint_file_not_json by blast
  have base: "checkpoint_dir s2 = checkpoint_dir s" "snapshot_steps s2 = snapshot_steps s"
    "model s2 = model s" "optimizer s2 = optimizer s" "files s2 = fs"
    by (simp_all add: s2)
  show ?thesis
  proof (cases "iteration mod snapshot_steps s2 = 0")
    case True
    with sv have "priv_save s2 epoch iteration loss = Return () s'" by simp
    from priv_save_Return [OF this]
    have s': "s' = s2\<lparr>files := fs(checkpoint_file s iteration \<mapsto>
            Pickle \<lparr>ck_epoch = Some epoch, ck_iteration = Some iteration,
                    ck_model_state_dict = Some (model s),
                    ck_optimizer_state_dict = optimizer s,
                    ck_loss = Some loss\<rparr>)\<rparr>"
      by (simp only: base cf)
    show ?thesis
      using True ss by (simp add: s' base fsc checkpoint_file_inj)
  next
    case False
    with sv have "s' = s2" by simp
    with False ss show ?thesis
      by (simp add: base fsc)
  qed
qed

lemma checkpoint_file_cong:
  "checkpoint_dir s' = checkpoint_dir s \<Longrightarrow> checkpoint_file s' i = checkpoint_file s i"
  by (simp add: checkpoint_file_def)

lemma train_epoch_files:
  assumes "train_epoch M epoch batches iteration s = Return n s'"
  shows "n = iteration + int (length batches)
       \<and> checkpoint_dir s' = checkpoint_dir s \<and> snapshot_steps s' = snapshot_steps s
       \<and> (\<forall>i. files s' (checkpoint_file s i) \<noteq> None \<longleftrightarrow>
              files s (checkpoint_file s i) \<noteq> None
              \<or> (iteration < i \<and> i \<le> n \<and> i mod snapshot_steps s = 0))"
  using assms
proof (induction batches arbitrary: iteration s)
  case Nil
  then show ?case by auto
next
  case (Cons batch batches)
  from Cons.prems obtain out s1 s2 where
    tr: "priv_train M s batch = Return out s1"
    and hd: "training_end_iter_handler M s1 (iteration + 1) epoch out = Return () s2"
    and rest: "train_epoch M epoch batches (iteration + 1) s2 = Return n s'"
    by (auto split: outcome.splits)
  from priv_train_frame [of M s batch out s1] tr
  have f1: "files s1 = files s" "checkpoint_dir s1 = checkpoint_dir s"
    "snapshot_steps s1 = snapshot_steps s" by auto
  obtain loss acc where out: "out = (loss, acc)" by (cases out)
  note h = handler_Return [OF hd [unfolded out]]
  from h f1 have f2: "checkpoint_dir s2 = checkpoint_dir s" "snapshot_steps s2 = snapshot_steps s"
    by auto
  have c1: "checkpoint_file s1 i = checkpoint_file s i" for i
    using f1(2) by (rule checkpoint_file_cong)
  have c2: "checkpoint_file s2 i = checkpoint_file s i" for i
    using f2(1) by (rule checkpoint_file_cong)
  from h have hf: "files s2 (checkpoint_file s1 i) =
             (if i = iteration + 1 \<and> (iteration + 1) mod snapshot_steps s1 = 0
              then Some (Pickle \<lparr>ck_epoch = Some epoch, ck_iteration = Some (iteration + 1),
                    ck_model_state_dict = Some (model s1),
                    ck_optimizer_state_dict = optimizer s1,
                    ck_loss = Some loss\<rparr>)
              else files s1 (checkpoint_file s1 i))" for i
    by blast
  have step: "files s2 (checkpoint_file s i) \<noteq> None \<longleftrightarrow>
              files s (checkpoint_file s i) \<noteq> None
              \<or> (i = iteration + 1 \<and> i mod snapshot_steps s = 0)" for i
    using hf [of i] unfolding c1 f1 by (cases "i = iteration + 1 \<and> (iteration + 1) mod snapshot_steps s = 0") auto
  note IH = Cons.IH [OF rest]
  from IH have n: "n = iteration + 1 + int (length batches)" by blast
  from IH have cfg: "checkpoint_dir s' = checkpoint_dir s" "snapshot_steps s' = snapshot_steps s"
    using f2 by auto
  from IH have fin: "files s' (checkpoint_file s i) \<noteq> None \<longleftrightarrow>
              files s2 (checkpoint_file s i) \<noteq> None
              \<or> (iteration + 1 < i \<and> i \<le> n \<and> i mod snapshot_steps s = 0)" for i
    by (simp add: c2 f2)
  have "files s' (checkpoint_file s i) \<noteq> None \<longleftrightarrow>
              files s (checkpoint_file s i) \<noteq> None
              \<or> (iteration < i \<and> i \<le> n \<and> i mod snapshot_steps s = 0)" for i
    unfolding fin step using n by auto
  with n cfg show ?case by simp
qed

lemma train_engine_run_files:
  assumes "train_engine_run M epochs epoch iteration s = Return n s'"
  shows "n = iteration + int (length (concat epochs))
       \<and> checkpoint_dir s' = checkpoint_dir s \<and> snapshot_steps s' = snapshot_steps s
       \<and> (\<forall>i. files s' (checkpoint_file s i) \<noteq> None \<longleftrightarrow>
              files s (checkpoint_file s i) \<noteq> None
              \<or> (iteration < i \<and> i \<le> n \<and> i mod snapshot_steps s = 0))"
  using assms
proof (induction epochs arbitrary: epoch iteration s)
  case Nil
  then show ?case by auto
next
  case (Cons batches epochs)
  from Cons.prems obtain k s1 where
    ep: "train_epoch M (epoch + 1) batches iteration s = Return k s1"
    and rest: "train_engine_run M epochs (epoch + 1) k s1 = Return n s'"
    by (auto split: outcome.splits)
  note e = train_epoch_files [OF ep]
  from e have k: "k = iteration + int (length batches)"
    and f1: "checkpoint_dir s1 = checkpoint_dir s" "snapshot_steps s1 = snapshot_steps s"
    by auto
  from e have st: "files s1 (checkpoint_file s i) \<noteq> None \<longleftrightarrow>
              files s (checkpoint_file s i) \<noteq> None
              \<or> (iteration < i \<and> i \<le> k \<and> i mod snapshot_steps s = 0)" for i
    by simp
  have c1: "checkpoint_file s1 i = checkpoint_file s i" for i
    using f1(1) by (rule checkpoint_file_cong)
  note IH = Cons.IH [OF rest]
  from IH have n: "n = k + int (length (concat epochs))" by blast
  from IH have cfg: "checkpoint_dir s' = checkpoint_dir s" "snapshot_steps s' = snapshot_steps s"
    using f1 by auto
  from IH have fin: "files s' (checkpoint_file s i) \<noteq> None \<longleftrightarrow>
              files s1 (checkpoint_file s i) \<noteq> None
              \<or> (k < i \<and> i \<le> n \<and> i mod snapshot_steps s = 0)" for i
    by (simp add: c1 f1)
  have "files s' (checkpoint_file s i) \<noteq> None \<longleftrightarrow>
              files s (checkpoint_file s i) \<noteq> None
              \<or> (iteration < i \<and> i \<le> n \<and> i mod snapshot_steps s = 0)" for i
    unfolding fin st using n k by auto
  with n k cfg show ?case by simp
qed

section \<open>Construction and evaluation\<close>

lemma toy_checkpoint_file: "checkpoint_file toy_solver 100 = ''./model/100.pth''"
  by (simp add: checkpoint_file_def toy_solver_def path_join_def str_int_def str_nat.simps)



lemma set_optimizer_unsupported:
  "update_rule s \<noteq> ''adam'' \<Longrightarrow> update_rule s \<noteq> ''rmsprop'' \<Longrightarrow> set_optimizer M s = s"
  by (simp add: set_optimizer_def)



lemma chunks_single: "0 < n \<Longrightarrow> length xs \<le> n \<Longrightarrow> xs \<noteq> [] \<Longrightarrow> chunks n xs = [xs]"
  by (subst chunks.simps) (simp add: chunks.simps [of n "[]"])

lemma chunks_eq_Nil: "chunks n xs = [] \<longleftrightarrow> n = 0 \<or> xs = []"
  by (subst chunks.simps) simp

lemma toy_init:
  "CaptioningSolver_init toy_model 0 toy_vocabulary example_batch [(7, 42)] default_kwargs
     (\<lambda>p. None) {} = Return () toy_solver"
  by (simp add: CaptioningSolver_init_def init_attributes_def set_optimizer_def os_path_exists_def
      os_makedirs_def default_kwargs_def toy_vocabulary_def toy_solver_def toy_model_def
      chunks_single insert_commute)

lemma test_validation_ignores_dataset: "test M s d True = test M s d' True"
  by (simp add: test_def)

lemma test_split_never_scores: "test M s d False \<noteq> Return (Some caption_scores) s'"
  by (auto simp: test_def split: sum.splits outcome.splits)

lemma toy_validation:
  "test toy_model toy_solver NoDataset True
     = Return (Some [(''CIDEr'', 1)])
         (toy_solver\<lparr>files := (files toy_solver)(''./data/val/val.candidate.captions.json'' \<mapsto>
                                   Json [(42, ''cat'')])\<rparr>)"
  by (simp add: test_def toy_solver_def toy_model_def test_engine_run_def priv_test_def
      testing_start_epoch_handler_def testing_end_epoch_handler_def)

lemma test_batches_packed:
  "test_batches M s (Inr (Packed4 b) # rest) st = Inl ValueError"
  "test_batches M s (Inl e # rest) st = Inl e"
  by (simp_all add: priv_test_def)

lemma test_split_returns_only_empty:
  assumes "test M s d False = Return r s'"
  shows "(d = Dataset [] \<or> d = LoaderArg []) \<and> r = None"
proof -
  from assms obtain loader where pl: "pack_loader d (batch_size s) = Inr loader"
    and run: "\<exists>st. test_engine_run M (s\<lparr>test_loader := Some d\<rparr>) loader = Return st s'"
    and r: "r = None"
    by (auto simp: test_def split: sum.splits outcome.splits)
  have "loader = []"
  proof (rule ccontr)
    assume "loader \<noteq> []"
    then obtain x rest where l: "loader = x # rest" by (cases loader) auto
    have "(\<exists>e. x = Inl e) \<or> (\<exists>b. x = Inr (Packed4 b))"
      using pl l
      by (auto simp: pack_loader_def split: if_splits dataset_arg.splits sum.splits)
    then have "\<exists>e. test_batches M (s\<lparr>test_loader := Some d\<rparr>) loader
                     (testing_start_epoch_handler \<lparr>ts_captions = [], ts_scores = None\<rparr>) = Inl e"
      unfolding l using test_batches_packed by metis
    with run show False
      by (auto simp: test_engine_run_def)
  qed
  with pl have "d = Dataset [] \<or> d = LoaderArg []"
    by (auto simp: pack_loader_def chunks_eq_Nil split: if_splits dataset_arg.splits)
  with r show ?thesis by simp
qed

lemma toy_handler_100:
  "training_end_iter_handler toy_model toy_solver 100 1 (23 / 10, 1 / 2)
   = Return () (toy_solver
       \<lparr>writer := [(''Loss'', 23 / 10, 100), (''Accuracy'', 1 / 2, 100)],
        files := (files toy_solver)(''./model/100.pth'' \<mapsto>
            Pickle \<lparr>ck_epoch = Some 1, ck_iteration = Some 100, ck_model_state_dict = Some 0,
                    ck_optimizer_state_dict = Some 0, ck_loss = Some (23 / 10)\<rparr>)\<rparr>)"
  using toy_checkpoint_file
  by (simp add: training_end_iter_handler_def priv_save_def toy_solver_def checkpoint_file_def)

lemma toy_handler_150:
  "training_end_iter_handler toy_model toy_solver 150 1 (23 / 10, 1 / 2)
   = Return () (toy_solver
       \<lparr>writer := [(''Loss'', 23 / 10, 150), (''Accuracy'', 1 / 2, 150)]\<rparr>)"
  by (simp add: training_end_iter_handler_def toy_solver_def)

lemma toy_train_dataset:
  "start_iter toy_solver = Some 1"
  "chunks (batch_size toy_solver) (train_dataset toy_solver) = [example_batch]"
proof -
  show "start_iter toy_solver = Some 1"
    by (simp add: toy_solver_def)
  have "chunks 100 example_batch = [example_batch]"
    by (rule chunks_single) (simp_all add: example_batch_def)
  then show "chunks (batch_size toy_solver) (train_dataset toy_solver) = [example_batch]"
    by (simp add: toy_solver_def)
qed

lemma toy_run:
  "train toy_model toy_solver [[example_packed]]
   = Return 1 (toy_solver
       \<lparr>model := 1, optimizer := Some 1,
        writer := [(''Loss'', (5 * ln (4 + exp 1) - 2 + 1 / 2) / 2, 1), (''Accuracy'', 2 / 5, 1)]\<rparr>)"
proof -
  have t: "priv_train toy_model toy_solver example_packed
   = Return ((5 * ln (4 + exp 1) - 2 + 1 / 2) / 2, 2 / 5)
       (toy_solver\<lparr>model := 1, optimizer := Some 1\<rparr>)"
    using toy_train by (simp add: example_packed_def)
  show ?thesis
    by (simp add: train_def training_start_handler_def toy_train_dataset t
        training_end_iter_handler_def) (simp add: toy_solver_def)
qed

section \<open>Claims about checkpoints, construction and scheduling\<close>

text \<open>
  C2. When the solver has an optimizer, \<open>_save\<close> returns, and \<open>_load\<close> of the file it
  wrote, by any solver that has an optimizer and sees the same files, returns with the
  model state and the optimizer state that were saved and with \<open>start_iter\<close> one more than
  the saved iteration; the rest of the loading solver is untouched.
\<close>

theorem checkpoint_round_trip:
  fixes s :: "('m, 'o, 'f) solver"
  assumes "optimizer s = Some optimizer_state"
  shows "\<exists>s1. priv_save s epoch iteration loss = Return () s1
           \<and> (\<forall>s2::('m, 'o, 'f) solver. files s2 = files s1 \<and> optimizer s2 \<noteq> None \<longrightarrow>
                 priv_load s2 (checkpoint_file s iteration)
                   = Return () (s2\<lparr>model := model s, optimizer := Some optimizer_state,
                                  start_iter := Some (iteration + 1)\<rparr>))"
  using assms
  by (auto simp: priv_save_def priv_load_def torch_load_def Let_def)

theorem checkpoint_round_trip_witness:
  "optimizer toy_solver = Some 0
   \<and> (\<exists>s1. priv_save toy_solver 5 100 (23 / 10) = Return () s1
          \<and> files s1 ''./model/100.pth'' \<noteq> None
          \<and> priv_load (s1\<lparr>model := 7, optimizer := Some 9\<rparr>) ''./model/100.pth''
               = Return () (s1\<lparr>model := 0, optimizer := Some 0, start_iter := Some 101\<rparr>))"
proof -
  have o: "optimizer toy_solver = Some 0" by (simp add: toy_solver_def)
  from checkpoint_round_trip [OF o, of 5 100 "23 / 10"] obtain s1 where
    both: "priv_save toy_solver 5 100 (23 / 10) = Return () s1
           \<and> (\<forall>s2::(nat, nat, nat) solver. files s2 = files s1 \<and> optimizer s2 \<noteq> None \<longrightarrow>
                 priv_load s2 (checkpoint_file toy_solver 100)
                   = Return () (s2\<lparr>model := model toy_solver, optimizer := Some 0,
                                  start_iter := Some (100 + 1)\<rparr>))" ..
  from both have sv: "priv_save toy_solver 5 100 (23 / 10) = Return () s1" ..
  from both have "\<forall>s2::(nat, nat, nat) solver. files s2 = files s1 \<and> optimizer s2 \<noteq> None \<longrightarrow>
                 priv_load s2 (checkpoint_file toy_solver 100)
                   = Return () (s2\<lparr>model := model toy_solver, optimizer := Some 0,
                                  start_iter := Some (100 + 1)\<rparr>)" ..
  then have ld: "files s2 = files s1 \<and> optimizer s2 \<noteq> None \<longrightarrow>
                 priv_load s2 (checkpoint_file toy_solver 100)
                   = Return () (s2\<lparr>model := model toy_solver, optimizer := Some 0,
                                  start_iter := Some (100 + 1)\<rparr>)" for s2 :: "(nat, nat, nat) solver" ..
  have "files s1 ''./model/100.pth'' \<noteq> None"
    using priv_save_Return [OF sv] by (simp add: toy_checkpoint_file)
  moreover have "priv_load (s1\<lparr>model := 7, optimizer := Some 9\<rparr>) ''./model/100.pth''
               = Return () (s1\<lparr>model := 0, optimizer := Some 0, start_iter := Some 101\<rparr>)"
    using ld [of "s1\<lparr>model := 7, optimizer := Some 9\<rparr>"]
    by (simp add: toy_checkpoint_file toy_facts)
  ultimately show ?thesis using o sv by (intro conjI exI [of _ s1])
qed

text \<open>
  C7. With the optimizer name \<open>sgd\<close> and no checkpoint the constructor returns a solver;
  it has no optimizer, and the first training step or save raises an AttributeError.
\<close>

theorem unsupported_optimizer_constructs:
  "CaptioningSolver_init toy_model 0 toy_vocabulary example_batch [(7, 42)]
     (default_kwargs\<lparr>kw_optimizer := ''sgd''\<rparr>) (\<lambda>p. None) {}
     = Return () (toy_solver\<lparr>update_rule := ''sgd'', optimizer := None\<rparr>)
   \<and> priv_train toy_model (toy_solver\<lparr>update_rule := ''sgd'', optimizer := None\<rparr>) example_packed
     = Raise AttributeError (toy_solver\<lparr>update_rule := ''sgd'', optimizer := None\<rparr>)
   \<and> priv_save (toy_solver\<lparr>update_rule := ''sgd'', optimizer := None\<rparr>) 1 100 (23 / 10)
     = Raise AttributeError (toy_solver\<lparr>update_rule := ''sgd'', optimizer := None\<rparr>)"
  by (simp add: CaptioningSolver_init_def init_attributes_def set_optimizer_def os_path_exists_def
      os_makedirs_def default_kwargs_def toy_vocabulary_def toy_solver_def toy_model_def
      chunks_single insert_commute priv_train_def priv_save_def)



text \<open>
  C9. With \<open>snapshot_steps = 100\<close>: an iteration handler that returns has written the
  checkpoint file of its iteration, holding that iteration, if the iteration is divisible
  by 100, and otherwise has left every checkpoint file as it was; after a training run of
  \<open>n\<close> iterations that returns, the checkpoint files that exist are those that existed
  before and those of the iterations \<open>100, 200, \<dots> \<le> n\<close>. The file of an iteration is
  named by the iteration, different iterations have different files, and a save leaves the
  files of all other iterations as they were.
\<close>

theorem snapshot_schedule:
  "(snapshot_steps s = 100 \<and> training_end_iter_handler M s iteration epoch (loss, acc) = Return () s'
      \<longrightarrow> (\<forall>i. files s' (checkpoint_file s i) =
             (if i = iteration \<and> iteration mod 100 = 0
              then Some (Pickle \<lparr>ck_epoch = Some epoch, ck_iteration = Some iteration,
                    ck_model_state_dict = Some (model s),
                    ck_optimizer_state_dict = optimizer s,
                    ck_loss = Some loss\<rparr>)
              else files s (checkpoint_file s i))))
   \<and> (snapshot_steps s = 100 \<and> train M s epochs = Return n s''
      \<longrightarrow> n = int (length (concat epochs))
        \<and> (\<forall>i. files s'' (checkpoint_file s i) \<noteq> None \<longleftrightarrow>
              files s (checkpoint_file s i) \<noteq> None \<or> (0 < i \<and> i \<le> n \<and> i mod 100 = 0)))
   \<and> checkpoint_file s i = path_join (checkpoint_dir s) (str_int i @ ''.pth'')
   \<and> (checkpoint_file s i = checkpoint_file s j \<longleftrightarrow> i = j)
   \<and> (priv_save s epoch j loss = Return () s''' \<and> i \<noteq> j
      \<longrightarrow> files s''' (checkpoint_file s i) = files s (checkpoint_file s i))"
proof -
  have a: "snapshot_steps s = 100 \<and> training_end_iter_handler M s iteration epoch (loss, acc) = Return () s'
      \<longrightarrow> (\<forall>i. files s' (checkpoint_file s i) =
             (if i = iteration \<and> iteration mod 100 = 0
              then Some (Pickle \<lparr>ck_epoch = Some epoch, ck_iteration = Some iteration,
                    ck_model_state_dict = Some (model s),
                    ck_optimizer_state_dict = optimizer s,
                    ck_loss = Some loss\<rparr>)
              else files s (checkpoint_file s i)))"
    using handler_Return [of M s iteration epoch loss acc s'] by auto
  have b: "snapshot_steps s = 100 \<and> train M s epochs = Return n s''
      \<longrightarrow> n = int (length (concat epochs))
        \<and> (\<forall>i. files s'' (checkpoint_file s i) \<noteq> None \<longleftrightarrow>
              files s (checkpoint_file s i) \<noteq> None \<or> (0 < i \<and> i \<le> n \<and> i mod 100 = 0))"
    using train_engine_run_files [of M epochs 0 0 s n s'']
    by (auto simp: train_def training_start_handler_def split: option.splits if_splits)
  have c: "checkpoint_file s i = path_join (checkpoint_dir s) (str_int i @ ''.pth'')"
    by (simp add: checkpoint_file_def)
  have d: "priv_save s epoch j loss = Return () s''' \<and> i \<noteq> j
      \<longrightarrow> files s''' (checkpoint_file s i) = files s (checkpoint_file s i)"
    by (auto dest!: priv_save_Return simp: checkpoint_file_inj)
  note e = checkpoint_file_inj [of s i j]
  show ?thesis
    by (rule conjI [OF a conjI [OF b conjI [OF c conjI [OF e d]]]])
qed

theorem snapshot_schedule_witness:
  "snapshot_steps toy_solver = 100
   \<and> (\<exists>s'. training_end_iter_handler toy_model toy_solver 100 1 (23 / 10, 1 / 2) = Return () s'
          \<and> files s' (checkpoint_file toy_solver 100)
              = Some (Pickle \<lparr>ck_epoch = Some 1, ck_iteration = Some 100,
                    ck_model_state_dict = Some (model toy_solver),
                    ck_optimizer_state_dict = optimizer toy_solver,
                    ck_loss = Some (23 / 10)\<rparr>)
          \<and> files s' (checkpoint_file toy_solver 150) = files toy_solver (checkpoint_file toy_solver 150))
   \<and> (\<exists>n s'. train toy_model toy_solver [[example_packed]] = Return n s'
          \<and> n = 1
          \<and> (files s' (checkpoint_file toy_solver 100) \<noteq> None
                \<longleftrightarrow> files toy_solver (checkpoint_file toy_solver 100) \<noteq> None))"
proof -
  define s100 where "s100 = toy_solver
       \<lparr>writer := [(''Loss'', 23 / 10, 100), (''Accuracy'', 1 / 2, 100)],
        files := (files toy_solver)(''./model/100.pth'' \<mapsto>
            Pickle \<lparr>ck_epoch = Some 1, ck_iteration = Some 100, ck_model_state_dict = Some 0,
                    ck_optimizer_state_dict = Some 0, ck_loss = Some (23 / 10)\<rparr>)\<rparr>"
  define srun where "srun = toy_solver
       \<lparr>model := 1, optimizer := Some 1,
        writer := [(''Loss'', (5 * ln (4 + exp 1) - 2 + 1 / 2) / 2, 1), (''Accuracy'', 2 / 5, 1)]\<rparr>"
  have ss: "snapshot_steps toy_solver = 100" by (simp add: toy_solver_def)
  have h: "training_end_iter_handler toy_model toy_solver 100 1 (23 / 10, 1 / 2) = Return () s100"
    unfolding s100_def by (rule toy_handler_100)
  have r: "train toy_model toy_solver [[example_packed]] = Return 1 srun"
    unfolding srun_def by (rule toy_run)
  note th = snapshot_schedule [where s = toy_solver and M = toy_model and iteration = 100
      and epoch = 1 and loss = "23 / 10" and acc = "1 / 2" and s' = s100
      and epochs = "[[example_packed]]" and n = 1 and s'' = srun]
  from th have "snapshot_steps toy_solver = 100
      \<and> training_end_iter_handler toy_model toy_solver 100 1 (23 / 10, 1 / 2) = Return () s100
      \<longrightarrow> (\<forall>i. files s100 (checkpoint_file toy_solver i) =
             (if i = 100 \<and> (100::int) mod 100 = 0
              then Some (Pickle \<lparr>ck_epoch = Some 1, ck_iteration = Some 100,
                    ck_model_state_dict = Some (model toy_solver),
                    ck_optimizer_state_dict = optimizer toy_solver,
                    ck_loss = Some (23 / 10)\<rparr>)
              else files toy_solver (checkpoint_file toy_solver i)))"
    by (rule conjunct1)
  from mp [OF this conjI [OF ss h]]
  have f: "files s100 (checkpoint_file toy_solver i) =
             (if i = 100 \<and> (100::int) mod 100 = 0
              then Some (Pickle \<lparr>ck_epoch = Some 1, ck_iteration = Some 100,
                    ck_model_state_dict = Some (model toy_solver),
                    ck_optimizer_state_dict = optimizer toy_solver,
                    ck_loss = Some (23 / 10)\<rparr>)
              else files toy_solver (checkpoint_file toy_solver i))" for i
    by (rule spec)
  have f100: "files s100 (checkpoint_file toy_solver 100)
              = Some (Pickle \<lparr>ck_epoch = Some 1, ck_iteration = Some 100,
                    ck_model_state_dict = Some (model toy_solver),
                    ck_optimizer_state_dict = optimizer toy_solver,
                    ck_loss = Some (23 / 10)\<rparr>)"
    using f [of 100] by simp
  have f150: "files s100 (checkpoint_file toy_solver 150)
              = files toy_solver (checkpoint_file toy_solver 150)"
    using f [of 150] by simp
  from th have "snapshot_steps toy_solver = 100
      \<and> train toy_model toy_solver [[example_packed]] = Return 1 srun
      \<longrightarrow> 1 = int (length (concat [[example_packed]]))
        \<and> (\<forall>i. files srun (checkpoint_file toy_solver i) \<noteq> None \<longleftrightarrow>
              files toy_solver (checkpoint_file toy_solver i) \<noteq> None
              \<or> (0 < i \<and> i \<le> 1 \<and> i mod 100 = 0))"
    by (rule conjunct2 [THEN conjunct1])
  from mp [OF this conjI [OF ss r]]
  have "\<forall>i. files srun (checkpoint_file toy_solver i) \<noteq> None \<longleftrightarrow>
              files toy_solver (checkpoint_file toy_solver i) \<noteq> None
              \<or> (0 < i \<and> i \<le> 1 \<and> i mod 100 = 0)"
    by (rule conjunct2)
  then have "files srun (checkpoint_file toy_solver 100) \<noteq> None \<longleftrightarrow>
              files toy_solver (checkpoint_file toy_solver 100) \<noteq> None
              \<or> (0 < (100::int) \<and> (100::int) \<le> 1 \<and> (100::int) mod 100 = 0)"
    by (rule spec)
  then have g: "files srun (checkpoint_file toy_solver 100) \<noteq> None \<longleftrightarrow>
              files toy_solver (checkpoint_file toy_solver 100) \<noteq> None"
    by simp
  from ss h f100 f150 r g show ?thesis
    by (intro conjI exI [of _ s100] exI [of _ srun] exI [of _ "1::int"]) simp_all
qed

text \<open>
  C10. On the example dataset \<open>test\<close> with \<open>is_validation = False\<close> raises a ValueError:
  its loader collates with \<open>pack_collate_fn\<close>, and \<open>_test\<close> unpacks the four-tuple into
  two names.
\<close>

theorem test_split_raises:
  "test toy_model toy_solver (Dataset example_batch) False
     = Raise ValueError (toy_solver\<lparr>test_loader := Some (Dataset example_batch)\<rparr>)"
  by (simp add: test_def pack_loader_def toy_solver_def chunks_single example_batch_def
      pack_collate_fn_def sorted_reverse_def pack_sequence_def upt_rec test_engine_run_def
      priv_test_def)


end
